theory Spec2Isabelle
  imports Main "HOL-Library.Char_ord" "HOL-Library.Sublist"
begin

section \<open>Source text and characters\<close>

text \<open>
  A source text is a Python \<^verbatim>\<open>str\<close>; it is modelled as a \<^typ>\<open>string\<close>, one
  \<^typ>\<open>char\<close> per character, so the model covers the characters with code point below
  256. On those, \<^verbatim>\<open>\d\<close> is exactly \<^verbatim>\<open>0-9\<close>, and every class of the rule tables is
  a set of characters.
\<close>

abbreviation TAB :: char where "TAB \<equiv> CHR 0x09"
abbreviation LF :: char where "LF \<equiv> CHR 0x0A"
abbreviation CR :: char where "CR \<equiv> CHR 0x0D"
abbreviation DQUOTE :: char where "DQUOTE \<equiv> CHR 0x22"

section \<open>Regular expressions of the rule tables\<close>

text \<open>
  The constructs the patterns of \<^verbatim>\<open>token_specification\<close> are built from: a literal
  character, a character class, concatenation, alternation \<^verbatim>\<open>a|b\<close>, and the greedy
  \<^verbatim>\<open>a?\<close>, \<^verbatim>\<open>a*\<close>, \<^verbatim>\<open>a+\<close>.
\<close>

datatype rx = Lit char | Cls "char set" | Seq rx rx | Alt rx rx | Opt rx | Star rx | Plus rx

text \<open>
  Python's \<^verbatim>\<open>re\<close> is a backtracking matcher: \<open>rmatch r s\<close> lists the prefixes of \<open>s\<close>
  that \<open>r\<close> matches, in the order in which backtracking tries them (the left
  alternative first, the longer repetition first). The match \<^verbatim>\<open>re\<close> reports is the first
  of the list. \<open>star_iter m n s\<close> repeats a body at most \<open>n\<close> times; an iteration that
  consumes nothing ends the repetition, so \<open>length s\<close> iterations are all there can be.
\<close>

primrec star_iter :: "(string \<Rightarrow> string list) \<Rightarrow> nat \<Rightarrow> string \<Rightarrow> string list" where
  "star_iter m 0 s = [[]]"
| "star_iter m (Suc n) s =
     concat (map (\<lambda>p. if p = [] then [] else map ((@) p) (star_iter m n (drop (length p) s))) (m s))
     @ [[]]"

primrec rmatch :: "rx \<Rightarrow> string \<Rightarrow> string list" where
  "rmatch (Lit c) s = (case s of [] \<Rightarrow> [] | x # _ \<Rightarrow> if x = c then [[x]] else [])"
| "rmatch (Cls C) s = (case s of [] \<Rightarrow> [] | x # _ \<Rightarrow> if x \<in> C then [[x]] else [])"
| "rmatch (Seq a b) s = concat (map (\<lambda>p. map ((@) p) (rmatch b (drop (length p) s))) (rmatch a s))"
| "rmatch (Alt a b) s = rmatch a s @ rmatch b s"
| "rmatch (Opt a) s = rmatch a s @ [[]]"
| "rmatch (Star a) s = star_iter (rmatch a) (length s) s"
| "rmatch (Plus a) s =
     concat (map (\<lambda>p. map ((@) p) (star_iter (rmatch a) (length s) (drop (length p) s))) (rmatch a s))"

text \<open>\<^verbatim>\<open>tok_re.match(source_text, pos)\<close>: the match at offset \<open>pos\<close>, or \<^verbatim>\<open>None\<close>.\<close>

definition re_match :: "rx \<Rightarrow> string \<Rightarrow> nat \<Rightarrow> string option" where
  "re_match r source_text pos =
     (case rmatch r (drop pos source_text) of [] \<Rightarrow> None | p # _ \<Rightarrow> Some p)"

text \<open>
  \<^verbatim>\<open>re.findall(r, s)\<close> scans \<open>s\<close> from the left and lists the matches;
  \<^verbatim>\<open>re.split(r, s)\<close> lists the pieces between them. The scan goes on after a match, and one
  character further where there is none. \<open>cur\<close> is the piece being collected. (The one
  pattern the lexers scan for matches no empty string.)
\<close>

function re_findall :: "rx \<Rightarrow> string \<Rightarrow> string list" where
  "re_findall r s =
     (case s of
        [] \<Rightarrow> []
      | c # cs \<Rightarrow>
          (case re_match r s 0 of
             None \<Rightarrow> re_findall r cs
           | Some p \<Rightarrow> if p = [] then re_findall r cs else p # re_findall r (drop (length p) s)))"
  by pat_completeness auto
termination
  by (relation "measure (\<lambda>(r, s). length s)") auto

function re_split :: "rx \<Rightarrow> string \<Rightarrow> string \<Rightarrow> string list" where
  "re_split r cur s =
     (case s of
        [] \<Rightarrow> [cur]
      | c # cs \<Rightarrow>
          (case re_match r s 0 of
             None \<Rightarrow> re_split r (cur @ [c]) cs
           | Some p \<Rightarrow>
               if p = [] then re_split r (cur @ [c]) cs else cur # re_split r [] (drop (length p) s)))"
  by pat_completeness auto
termination
  by (relation "measure (\<lambda>(r, cur, s). length s)") auto

declare re_findall.simps [simp del] re_split.simps [simp del]

section \<open>The character classes and the pattern shared by both lexers\<close>

definition digit :: "char set" where
  "digit = {CHR ''0''..CHR ''9''}"

definition letter :: "char set" where
  "letter = {CHR ''A''..CHR ''Z''} \<union> {CHR ''a''..CHR ''z''}"

text \<open>The pattern \<^verbatim>\<open>\r\n|\r|\n\<close> of the NEWLINE rule, of \<^verbatim>\<open>re.split\<close> and of \<^verbatim>\<open>re.findall\<close>.\<close>

definition newline_rx :: rx where
  "newline_rx = Alt (Seq (Lit CR) (Lit LF)) (Alt (Lit CR) (Lit LF))"

definition WHITESPACE_rx :: rx where
  "WHITESPACE_rx = Plus (Cls {CHR '' '', TAB})"

definition COMMENT_rx :: rx where
  "COMMENT_rx =
     Seq (Lit CHR ''/'') (Seq (Lit CHR ''/'') (Seq (Plus (Cls (letter \<union> digit)))
       (Seq (Lit CHR ''/'') (Lit CHR ''/''))))"

definition STRING_rx :: rx where
  "STRING_rx = Seq (Lit DQUOTE) (Seq (Star (Cls (- {DQUOTE, LF}))) (Lit DQUOTE))"

definition ID_rx :: rx where
  "ID_rx = Seq (Cls letter) (Star (Cls (letter \<union> digit \<union> {CHR ''_''})))"

text \<open>\<^verbatim>\<open>\d+(\.\d+)?([eE][+-]?\d+)?\<close> with the class of exponent markers left open.\<close>

definition NUM_rx :: "char set \<Rightarrow> rx" where
  "NUM_rx expo =
     Seq (Plus (Cls digit)) (Seq (Opt (Seq (Lit CHR ''.'') (Plus (Cls digit))))
       (Opt (Seq (Cls expo) (Seq (Opt (Cls {CHR ''+'', CHR ''-''})) (Plus (Cls digit))))))"

text \<open>A pattern of two literal characters, and of one.\<close>

definition lit2 :: "char \<Rightarrow> char \<Rightarrow> rx" where
  "lit2 a b = Seq (Lit a) (Lit b)"

section \<open>Keywords\<close>

definition KEYWORDS :: "string \<rightharpoonup> string" where
  "KEYWORDS = map_of
     [(''program'', ''PROGRAM''), (''type'', ''TYPE''), (''var'', ''VAR''),
      (''procedure'', ''PROCEDURE''), (''function'', ''FUNCTION''), (''begin'', ''BEGIN''),
      (''end'', ''END''), (''integer'', ''INTEGER''), (''boolean'', ''BOOLEAN''),
      (''string'', ''STRING_T''), (''array'', ''ARRAY''), (''of'', ''OF''), (''if'', ''IF''),
      (''then'', ''THEN''), (''else'', ''ELSE''), (''while'', ''WHILE''), (''do'', ''DO''),
      (''true'', ''TRUE''), (''false'', ''FALSE'')]"

text \<open>
  \<^verbatim>\<open>str.lower()\<close> on the characters below 256: the ASCII capitals, and the Latin-1
  capitals \<^verbatim>\<open>U+00C0..U+00DE\<close> but the multiplication sign \<^verbatim>\<open>U+00D7\<close>, move up by 32.
\<close>

definition lower_char :: "char \<Rightarrow> char" where
  "lower_char c =
     (let n = (of_char c :: nat)
      in if (65 \<le> n \<and> n \<le> 90) \<or> (192 \<le> n \<and> n \<le> 222 \<and> n \<noteq> 215) then char_of (n + 32) else c)"

definition lower :: "string \<Rightarrow> string" where
  "lower s = map lower_char s"

text \<open>\<^verbatim>\<open>d.get(k, default)\<close>.\<close>

definition dict_get :: "('k \<rightharpoonup> 'v) \<Rightarrow> 'k \<Rightarrow> 'v \<Rightarrow> 'v" where
  "dict_get d k dflt = (case d k of None \<Rightarrow> dflt | Some v \<Rightarrow> v)"

section \<open>The driving loop's state, and the search for a rule\<close>

text \<open>
  The inner \<^verbatim>\<open>for\<close> loop over \<^verbatim>\<open>token_regex_list\<close>: the first rule, in the order of the
  table, whose pattern matches at \<open>pos\<close>, with the lexeme it matched.
\<close>

fun find_match :: "(string \<times> rx) list \<Rightarrow> string \<Rightarrow> nat \<Rightarrow> (string \<times> string) option" where
  "find_match [] source_text pos = None"
| "find_match ((tok_name, tok_re) # rest) source_text pos =
     (case re_match tok_re source_text pos of
        Some lexeme \<Rightarrow> Some (tok_name, lexeme)
      | None \<Rightarrow> find_match rest source_text pos)"

text \<open>
  The local variables \<^verbatim>\<open>tokens\<close>, \<^verbatim>\<open>pos\<close>, \<^verbatim>\<open>line\<close> and \<^verbatim>\<open>col\<close> of \<^verbatim>\<open>lex\<close>
  (\<open>cur_line\<close> and \<open>cur_col\<close> here, since \<open>line\<close> and \<open>col\<close> are fields of a token).
\<close>

record 'tok lex_state =
  tokens :: "'tok list"
  pos :: nat
  cur_line :: int
  cur_col :: int

text \<open>
  \<^verbatim>\<open>LexerError(message, line, col)\<close>. The message is \<^verbatim>\<open>"Caracter inesperado: " + repr(ch)\<close>;
  the model keeps \<^verbatim>\<open>ch\<close>, the character at the offset where no rule matched.
\<close>

datatype LexerError = LexerError (unexpected: char) (err_line: int) (err_col: int)

definition skipped :: "string \<Rightarrow> bool" where
  "skipped tok_name \<longleftrightarrow> tok_name \<in> {''WHITESPACE'', ''NEWLINE'', ''COMMENT''}"

section \<open>\<^verbatim>\<open>src/lexer.py\<close>\<close>

record Token =
  token :: string
  cadena :: string
  lexeme :: string
  line :: int
  col :: int

definition token_specification :: "(string \<times> rx) list" where
  "token_specification =
     [(''WHITESPACE'', WHITESPACE_rx),
      (''NEWLINE'', newline_rx),
      (''COMMENT'', COMMENT_rx),
      (''STRING'', STRING_rx),
      (''NUM'', NUM_rx {CHR ''e'', CHR ''E''}),
      (''ASSIGN'', lit2 CHR '':'' CHR ''=''),
      (''EQEQ'', lit2 CHR ''='' CHR ''=''),
      (''EQUAL'', Lit CHR ''=''),
      (''NEQ'', lit2 CHR ''!'' CHR ''=''),
      (''LE'', lit2 CHR ''<'' CHR ''=''),
      (''GE'', lit2 CHR ''>'' CHR ''=''),
      (''ANDAND'', lit2 CHR ''&'' CHR ''&''),
      (''OROR'', lit2 CHR ''|'' CHR ''|''),
      (''DOTDOT'', lit2 CHR ''.'' CHR ''.''),
      (''LT'', Lit CHR ''<''),
      (''GT'', Lit CHR ''>''),
      (''PLUS'', Lit CHR ''+''),
      (''MINUS'', Lit CHR ''-''),
      (''MUL'', Lit CHR ''*''),
      (''DIV'', Lit CHR ''/''),
      (''MOD'', Lit CHR ''%''),
      (''NOT'', Lit CHR ''!''),
      (''LPAREN'', Lit CHR ''(''),
      (''RPAREN'', Lit CHR '')''),
      (''LBRACK'', Lit CHR ''[''),
      (''RBRACK'', Lit CHR '']''),
      (''DOT'', Lit CHR ''.''),
      (''SEMI'', Lit CHR '';''),
      (''COMMA'', Lit CHR '',''),
      (''COLON'', Lit CHR '':''),
      (''ID'', ID_rx)]"

definition DESCRIPTION_MAP :: "string \<rightharpoonup> string" where
  "DESCRIPTION_MAP = map_of
     [(''ASSIGN'', ''ASIGNACION''), (''EQEQ'', ''IGUAL_IGUAL''), (''EQUAL'', ''IGUAL''),
      (''NEQ'', ''DIFERENTE''), (''LE'', ''MENOR_IGUAL''), (''GE'', ''MAYOR_IGUAL''),
      (''LT'', ''MENOR''), (''GT'', ''MAYOR''), (''PLUS'', ''SUMA''), (''MINUS'', ''RESTA''),
      (''MUL'', ''MULTIPLICACION''), (''DIV'', ''DIVISION''), (''MOD'', ''MODULO''),
      (''ANDAND'', ''AND''), (''OROR'', ''OR''), (''NOT'', ''NEGACION''),
      (''LPAREN'', ''PARENTESIS_ABRE''), (''RPAREN'', ''PARENTESIS_CIERRA''),
      (''LBRACK'', ''CORCHETE_ABRE''), (''RBRACK'', ''CORCHETE_CIERRA''),
      (''DOTDOT'', ''RANGO''), (''DOT'', ''PUNTO''), (''SEMI'', ''PUNTO_Y_COMA''),
      (''COMMA'', ''COMA''), (''COLON'', ''DOS_PUNTOS''), (''ID'', ''IDENTIFICADOR''),
      (''NUM'', ''NUMERO''), (''STRING'', ''CADENA''), (''EOF'', ''EOF'')]"

definition operator_map :: "string \<rightharpoonup> string" where
  "operator_map = map_of
     [(''ASSIGN'', ''ASSIGN''), (''EQUAL'', ''EQUAL''), (''EQEQ'', ''EQEQ''), (''NEQ'', ''NEQ''),
      (''LE'', ''LE''), (''GE'', ''GE''), (''ANDAND'', ''ANDAND''), (''OROR'', ''OROR''),
      (''DOTDOT'', ''DOTDOT''), (''LT'', ''LT''), (''GT'', ''GT''), (''PLUS'', ''PLUS''),
      (''MINUS'', ''MINUS''), (''MUL'', ''MUL''), (''DIV'', ''DIV''), (''MOD'', ''MOD''),
      (''NOT'', ''NOT''), (''LPAREN'', ''LPAREN''), (''RPAREN'', ''RPAREN''),
      (''LBRACK'', ''LBRACK''), (''RBRACK'', ''RBRACK''), (''DOT'', ''DOT''), (''SEMI'', ''SEMI''),
      (''COMMA'', ''COMMA''), (''COLON'', ''COLON'')]"

text \<open>\<^verbatim>\<open>_advance_position(line, col, lexeme)\<close>.\<close>

definition advance_position :: "int \<Rightarrow> int \<Rightarrow> string \<Rightarrow> int \<times> int" where
  "advance_position ln cl lx =
     (if lx = [] then (ln, cl)
      else if LF \<notin> set lx \<and> CR \<notin> set lx then (ln, cl + int (length lx))
      else
        let parts = re_split newline_rx [] lx;
            new_line = ln + (int (length parts) - 1);
            new_col = int (length (last parts)) + 1
        in (new_line, new_col))"

text \<open>
  The end of the loop's body, from the test for the skipped rules on: the tokens it appends
  for a matched rule \<open>tok_name\<close> and lexeme \<open>lx\<close>, none for a skipped rule.
\<close>

definition emit :: "string \<Rightarrow> string \<Rightarrow> int \<Rightarrow> int \<Rightarrow> Token list" where
  "emit tok_name lx start_line start_col =
     (if skipped tok_name then []
      else if tok_name = ''ID'' then
        (case KEYWORDS (lower lx) of
           Some token_type \<Rightarrow>
             [\<lparr>token = token_type, cadena = ''PALABRA_RESERVADA'', lexeme = lx,
               line = start_line, col = start_col\<rparr>]
         | None \<Rightarrow>
             [\<lparr>token = ''ID'', cadena = dict_get DESCRIPTION_MAP ''ID'' ''IDENTIFICADOR'',
               lexeme = lx, line = start_line, col = start_col\<rparr>])
      else if tok_name \<in> {''NUM'', ''STRING''} then
        [\<lparr>token = tok_name, cadena = dict_get DESCRIPTION_MAP tok_name tok_name, lexeme = lx,
          line = start_line, col = start_col\<rparr>]
      else
        let tok_type = dict_get operator_map tok_name tok_name
        in [\<lparr>token = tok_type,
              cadena = dict_get DESCRIPTION_MAP tok_name (dict_get DESCRIPTION_MAP tok_type tok_type),
              lexeme = lx, line = start_line, col = start_col\<rparr>])"

text \<open>One iteration of the \<^verbatim>\<open>while\<close> loop: the error raised, or the state after it.\<close>

definition lex_body :: "string \<Rightarrow> Token lex_state \<Rightarrow> LexerError + Token lex_state" where
  "lex_body source_text st =
     (case find_match token_specification source_text (pos st) of
        None \<Rightarrow> Inl (LexerError (source_text ! pos st) (cur_line st) (cur_col st))
      | Some (tok_name, lx) \<Rightarrow>
          let start_line = cur_line st;
              start_col = cur_col st;
              (new_line, new_col) = advance_position (cur_line st) (cur_col st) lx
          in Inr \<lparr>tokens = tokens st @ emit tok_name lx start_line start_col,
                  pos = pos st + length lx, cur_line = new_line, cur_col = new_col\<rparr>)"

text \<open>
  The \<^verbatim>\<open>while pos < length\<close> loop. Nothing in its text bounds the number of iterations
  (a rule that matched the empty string would repeat for ever), so not returning is the
  value \<open>None\<close>.
\<close>

partial_function (option) lex_loop :: "string \<Rightarrow> Token lex_state \<Rightarrow> (LexerError + Token list) option"
where
  "lex_loop source_text st =
     (if pos st < length source_text then
        (case lex_body source_text st of
           Inl e \<Rightarrow> Some (Inl e)
         | Inr st' \<Rightarrow> lex_loop source_text st')
      else
        Some (Inr (tokens st @
          [\<lparr>token = ''EOF'', cadena = dict_get DESCRIPTION_MAP ''EOF'' ''EOF'', lexeme = [],
            line = cur_line st, col = cur_col st\<rparr>])))"

definition init_state :: "'tok lex_state" where
  "init_state = \<lparr>tokens = [], pos = 0, cur_line = 1, cur_col = 1\<rparr>"

definition lex :: "string \<Rightarrow> (LexerError + Token list) option" where
  "lex source_text = lex_loop source_text init_state"

section \<open>\<^verbatim>\<open>src/Analizador_Lexico.py\<close>\<close>

text \<open>
  The second lexer of the repository; its names carry the suffix \<open>_AL\<close>. Its patterns are
  compiled with \<^verbatim>\<open>re.DOTALL\<close>, which changes the meaning of a dot outside a class only, and
  no pattern has one. Its NUM pattern is \<^verbatim>\<open>\d+(\.\d+)?(e[+-]?\d+)?\<close>, and its table has no
  EQUAL rule.
\<close>

record Token_AL =
  type_AL :: string
  lexeme_AL :: string
  line_AL :: int
  col_AL :: int

definition token_specification_AL :: "(string \<times> rx) list" where
  "token_specification_AL =
     [(''WHITESPACE'', WHITESPACE_rx),
      (''NEWLINE'', newline_rx),
      (''COMMENT'', COMMENT_rx),
      (''STRING'', STRING_rx),
      (''NUM'', NUM_rx {CHR ''e''}),
      (''ASSIGN'', lit2 CHR '':'' CHR ''=''),
      (''EQEQ'', lit2 CHR ''='' CHR ''=''),
      (''NEQ'', lit2 CHR ''!'' CHR ''=''),
      (''LE'', lit2 CHR ''<'' CHR ''=''),
      (''GE'', lit2 CHR ''>'' CHR ''=''),
      (''ANDAND'', lit2 CHR ''&'' CHR ''&''),
      (''OROR'', lit2 CHR ''|'' CHR ''|''),
      (''DOTDOT'', lit2 CHR ''.'' CHR ''.''),
      (''LT'', Lit CHR ''<''),
      (''GT'', Lit CHR ''>''),
      (''PLUS'', Lit CHR ''+''),
      (''MINUS'', Lit CHR ''-''),
      (''MUL'', Lit CHR ''*''),
      (''DIV'', Lit CHR ''/''),
      (''MOD'', Lit CHR ''%''),
      (''NOT'', Lit CHR ''!''),
      (''LPAREN'', Lit CHR ''(''),
      (''RPAREN'', Lit CHR '')''),
      (''LBRACK'', Lit CHR ''[''),
      (''RBRACK'', Lit CHR '']''),
      (''DOT'', Lit CHR ''.''),
      (''SEMI'', Lit CHR '';''),
      (''COMMA'', Lit CHR '',''),
      (''COLON'', Lit CHR '':''),
      (''ID'', ID_rx)]"

definition operator_map_AL :: "string \<rightharpoonup> string" where
  "operator_map_AL = map_of
     [(''ASSIGN'', ''ASSIGN''), (''EQEQ'', ''EQ''), (''NEQ'', ''NEQ''), (''LE'', ''LE''),
      (''GE'', ''GE''), (''ANDAND'', ''AND''), (''OROR'', ''OR''), (''DOTDOT'', ''DOTDOT''),
      (''LT'', ''LT''), (''GT'', ''GT''), (''PLUS'', ''PLUS''), (''MINUS'', ''MINUS''),
      (''MUL'', ''MUL''), (''DIV'', ''DIV''), (''MOD'', ''MOD''), (''NOT'', ''NOT''),
      (''LPAREN'', ''LPAREN''), (''RPAREN'', ''RPAREN''), (''LBRACK'', ''LBRACK''),
      (''RBRACK'', ''RBRACK''), (''DOT'', ''DOT''), (''SEMI'', ''SEMI''), (''COMMA'', ''COMMA''),
      (''COLON'', ''COLON'')]"

text \<open>
  The end of the loop's body, from the test for the skipped rules on. \<open>ln\<close> and \<open>cl\<close> are
  \<^verbatim>\<open>line\<close> and \<^verbatim>\<open>col\<close> as the body has just updated them: this lexer stamps a token
  with \<^verbatim>\<open>line\<close> and \<^verbatim>\<open>col - len(lexeme)\<close>.
\<close>

definition emit_AL :: "string \<Rightarrow> string \<Rightarrow> int \<Rightarrow> int \<Rightarrow> Token_AL list" where
  "emit_AL tok_name lx ln cl =
     (if skipped tok_name then []
      else if tok_name = ''ID'' then
        (case KEYWORDS (lower lx) of
           Some kw \<Rightarrow>
             [\<lparr>type_AL = kw, lexeme_AL = lx, line_AL = ln, col_AL = cl - int (length lx)\<rparr>]
         | None \<Rightarrow>
             [\<lparr>type_AL = ''ID'', lexeme_AL = lx, line_AL = ln, col_AL = cl - int (length lx)\<rparr>])
      else if tok_name = ''NUM'' then
        [\<lparr>type_AL = ''NUM'', lexeme_AL = lx, line_AL = ln, col_AL = cl - int (length lx)\<rparr>]
      else if tok_name = ''STRING'' then
        [\<lparr>type_AL = ''STRING'', lexeme_AL = lx, line_AL = ln, col_AL = cl - int (length lx)\<rparr>]
      else
        let tok_type = dict_get operator_map_AL tok_name tok_name
        in [\<lparr>type_AL = tok_type, lexeme_AL = lx, line_AL = ln, col_AL = cl - int (length lx)\<rparr>])"

text \<open>The cursor update written in the loop's body.\<close>

definition advance_AL :: "int \<Rightarrow> int \<Rightarrow> string \<Rightarrow> int \<times> int" where
  "advance_AL ln cl lx =
     (if LF \<in> set lx \<or> CR \<in> set lx then
        let newlines = re_findall newline_rx lx
        in (ln + int (length newlines), 1)
      else (ln, cl + int (length lx)))"

definition lex_body_AL :: "string \<Rightarrow> Token_AL lex_state \<Rightarrow> LexerError + Token_AL lex_state" where
  "lex_body_AL source_text st =
     (case find_match token_specification_AL source_text (pos st) of
        None \<Rightarrow> Inl (LexerError (source_text ! pos st) (cur_line st) (cur_col st))
      | Some (tok_name, lx) \<Rightarrow>
          let (new_line, new_col) = advance_AL (cur_line st) (cur_col st) lx
          in Inr \<lparr>tokens = tokens st @ emit_AL tok_name lx new_line new_col,
                  pos = pos st + length lx, cur_line = new_line, cur_col = new_col\<rparr>)"

partial_function (option) lex_loop_AL ::
  "string \<Rightarrow> Token_AL lex_state \<Rightarrow> (LexerError + Token_AL list) option"
where
  "lex_loop_AL source_text st =
     (if pos st < length source_text then
        (case lex_body_AL source_text st of
           Inl e \<Rightarrow> Some (Inl e)
         | Inr st' \<Rightarrow> lex_loop_AL source_text st')
      else
        Some (Inr (tokens st @
          [\<lparr>type_AL = ''EOF'', lexeme_AL = [], line_AL = cur_line st, col_AL = cur_col st\<rparr>])))"

definition lex_AL :: "string \<Rightarrow> (LexerError + Token_AL list) option" where
  "lex_AL source_text = lex_loop_AL source_text init_state"

section \<open>What a pattern can match, read off its syntax\<close>

text \<open>
  Three analyses of a pattern, used to state and prove facts about whole rule tables:
  whether it can match the empty string, the characters a match can start with, and the
  characters a match can contain. Each is an upper bound (lemmas \<open>rmatch_nullable\<close>,
  \<open>rmatch_first\<close>, \<open>rmatch_chars\<close>).
\<close>

primrec nullable :: "rx \<Rightarrow> bool" where
  "nullable (Lit c) = False"
| "nullable (Cls C) = False"
| "nullable (Seq a b) = (nullable a \<and> nullable b)"
| "nullable (Alt a b) = (nullable a \<or> nullable b)"
| "nullable (Opt a) = True"
| "nullable (Star a) = True"
| "nullable (Plus a) = nullable a"

primrec first :: "rx \<Rightarrow> char set" where
  "first (Lit c) = {c}"
| "first (Cls C) = C"
| "first (Seq a b) = first a \<union> (if nullable a then first b else {})"
| "first (Alt a b) = first a \<union> first b"
| "first (Opt a) = first a"
| "first (Star a) = first a"
| "first (Plus a) = first a"

primrec chars :: "rx \<Rightarrow> char set" where
  "chars (Lit c) = {c}"
| "chars (Cls C) = C"
| "chars (Seq a b) = chars a \<union> chars b"
| "chars (Alt a b) = chars a \<union> chars b"
| "chars (Opt a) = chars a"
| "chars (Star a) = chars a"
| "chars (Plus a) = chars a"

section \<open>The runs of the driving loop\<close>

text \<open>
  \<open>steps rules body s ms st\<close>: from the initial state, the loop over the source text \<open>s\<close>
  reaches the state \<open>st\<close> at the head of an iteration, after the matches \<open>ms\<close> (rule name
  and lexeme, in match order, the skipped ones included).
\<close>

inductive steps ::
  "(string \<times> rx) list \<Rightarrow> (string \<Rightarrow> 'tok lex_state \<Rightarrow> LexerError + 'tok lex_state) \<Rightarrow>
   string \<Rightarrow> (string \<times> string) list \<Rightarrow> 'tok lex_state \<Rightarrow> bool"
  for rules body s
where
  steps_init: "steps rules body s [] init_state"
| steps_step:
    "steps rules body s ms st \<Longrightarrow> pos st < length s \<Longrightarrow>
     find_match rules s (pos st) = Some (tok_name, lx) \<Longrightarrow> body s st = Inr st' \<Longrightarrow>
     steps rules body s (ms @ [(tok_name, lx)]) st'"

abbreviation reached :: "string \<Rightarrow> (string \<times> string) list \<Rightarrow> Token lex_state \<Rightarrow> bool" where
  "reached \<equiv> steps token_specification lex_body"

abbreviation reached_AL :: "string \<Rightarrow> (string \<times> string) list \<Rightarrow> Token_AL lex_state \<Rightarrow> bool" where
  "reached_AL \<equiv> steps token_specification_AL lex_body_AL"

section \<open>Line and column of an offset, as the specification counts them\<close>

text \<open>
  The number of line-break sequences of a text (\<^verbatim>\<open>\r\n\<close>, \<^verbatim>\<open>\r\<close> or \<^verbatim>\<open>\n\<close>, each one
  break), the number of characters after the last of them, and the 1-based line and
  column of the character at offset \<open>n\<close> of \<open>s\<close>.
\<close>

fun line_breaks :: "string \<Rightarrow> nat" where
  "line_breaks [] = 0"
| "line_breaks [c] = (if c = CR \<or> c = LF then 1 else 0)"
| "line_breaks (c # d # ds) =
     (if c = CR \<and> d = LF then Suc (line_breaks ds)
      else if c = CR \<or> c = LF then Suc (line_breaks (d # ds))
      else line_breaks (d # ds))"

definition chars_after_last_break :: "string \<Rightarrow> nat" where
  "chars_after_last_break s = length (takeWhile (\<lambda>c. c \<noteq> CR \<and> c \<noteq> LF) (rev s))"

definition position :: "string \<Rightarrow> nat \<Rightarrow> int \<times> int" where
  "position s n =
     (1 + int (line_breaks (take n s)), 1 + int (chars_after_last_break (take n s)))"

definition no_empty_match :: "(string \<times> rx) list \<Rightarrow> bool" where
  "no_empty_match rules \<longleftrightarrow> list_all (\<lambda>(tok_name, tok_re). \<not> nullable tok_re) rules"

text \<open>What the lemmas on runs need to know of a loop body.\<close>

definition advances ::
  "(string \<times> rx) list \<Rightarrow> (string \<Rightarrow> 'tok lex_state \<Rightarrow> LexerError + 'tok lex_state) \<Rightarrow> bool" where
  "advances rules body \<longleftrightarrow>
     (\<forall>s st st' tok_name lx. find_match rules s (pos st) = Some (tok_name, lx) \<longrightarrow>
        body s st = Inr st' \<longrightarrow> pos st' = pos st + length lx)"

text \<open>The rules of a table that can match at a character, by their first characters.\<close>

definition starters :: "(string \<times> rx) list \<Rightarrow> char \<Rightarrow> string list" where
  "starters rules c = map fst (filter (\<lambda>(tok_name, tok_re). c \<in> first tok_re) rules)"

text \<open>
  The offsets at which the matches of a run start, the skipped ones left out: the offsets
  of the first characters of the lexemes of the emitted tokens. \<open>k\<close> is the offset of the
  first match.
\<close>

fun starts :: "nat \<Rightarrow> (string \<times> string) list \<Rightarrow> nat list" where
  "starts k [] = []"
| "starts k ((tok_name, lx) # ms) =
     (if skipped tok_name then [] else [k]) @ starts (k + length lx) ms"

text \<open>
  The text of a rule whose pattern is a sequence of literal characters, as the patterns
  of the operator and punctuation rules are; \<open>None\<close> for the other patterns.
\<close>

fun lit_string :: "rx \<Rightarrow> string option" where
  "lit_string (Lit c) = Some [c]"
| "lit_string (Seq a b) =
     (case (lit_string a, lit_string b) of (Some p, Some q) \<Rightarrow> Some (p @ q) | _ \<Rightarrow> None)"
| "lit_string _ = None"

text \<open>
  The pairs of rule names \<open>(a, b)\<close> of a table such that the text of rule \<open>b\<close> is a proper
  prefix of the text of rule \<open>a\<close>, and the order of the table: \<open>a\<close> is tried before \<open>b\<close>
  when \<open>a\<close> is among the names that come before \<open>b\<close>.
\<close>

definition proper_prefix_rule :: "string \<times> rx \<Rightarrow> string \<times> rx \<Rightarrow> bool" where
  "proper_prefix_rule b a =
     (case (lit_string (snd b), lit_string (snd a)) of
        (Some p, Some q) \<Rightarrow> strict_prefix p q
      | _ \<Rightarrow> False)"

definition prefix_pairs :: "(string \<times> rx) list \<Rightarrow> (string \<times> string) list" where
  "prefix_pairs rules =
     concat (map (\<lambda>a. map (\<lambda>b. (fst a, fst b)) (filter (\<lambda>b. proper_prefix_rule b a) rules)) rules)"

definition tried_before :: "(string \<times> rx) list \<Rightarrow> string \<Rightarrow> string \<Rightarrow> bool" where
  "tried_before rules a b \<longleftrightarrow> a \<in> set (takeWhile (\<lambda>n. n \<noteq> b) (map fst rules))"

section \<open>Facts about the matcher\<close>

lemma star_iter_prefix:
  assumes m: "\<And>s p. p \<in> set (m s) \<Longrightarrow> prefix p s"
  shows "p \<in> set (star_iter m n s) \<Longrightarrow> prefix p s"
proof (induction n arbitrary: s p)
  case 0
  then show ?case by simp
next
  case (Suc n)
  from Suc.prems consider "p = []"
    | q t where "q \<in> set (m s)" "q \<noteq> []" "t \<in> set (star_iter m n (drop (length q) s))" "p = q @ t"
    by (auto split: if_splits)
  then show ?case
  proof cases
    case 1
    then show ?thesis by simp
  next
    case 2
    from m [OF 2(1)] obtain u where u: "s = q @ u" by (auto simp: prefix_def)
    from Suc.IH [OF 2(3)] have "prefix t u" by (simp add: u)
    then show ?thesis by (simp add: 2(4) u)
  qed
qed

lemma rmatch_prefix: "p \<in> set (rmatch r s) \<Longrightarrow> prefix p s"
proof (induction r arbitrary: s p)
  case (Lit c)
  then show ?case by (auto split: list.splits if_splits)
next
  case (Cls C)
  then show ?case by (auto split: list.splits if_splits)
next
  case (Seq a b)
  from Seq.prems obtain q t where q: "q \<in> set (rmatch a s)"
    and t: "t \<in> set (rmatch b (drop (length q) s))" and p: "p = q @ t"
    by auto
  from Seq.IH(1) [OF q] obtain u where u: "s = q @ u" by (auto simp: prefix_def)
  from Seq.IH(2) [OF t] have "prefix t u" by (simp add: u)
  then show ?case by (simp add: p u)
next
  case (Alt a b)
  then show ?case by auto
next
  case (Opt a)
  then show ?case by auto
next
  case (Star a)
  then show ?case using star_iter_prefix [of "rmatch a"] by auto
next
  case (Plus a)
  from Plus.prems obtain q t where q: "q \<in> set (rmatch a s)"
    and t: "t \<in> set (star_iter (rmatch a) (length s) (drop (length q) s))" and p: "p = q @ t"
    by auto
  from Plus.IH [OF q] obtain u where u: "s = q @ u" by (auto simp: prefix_def)
  from star_iter_prefix [of "rmatch a", OF Plus.IH t] have "prefix t u" by (simp add: u)
  then show ?case by (simp add: p u)
qed

lemma star_iter_chars:
  assumes m: "\<And>s p. p \<in> set (m s) \<Longrightarrow> set p \<subseteq> A"
  shows "p \<in> set (star_iter m n s) \<Longrightarrow> set p \<subseteq> A"
proof (induction n arbitrary: s p)
  case 0
  then show ?case by simp
next
  case (Suc n)
  then show ?case using m by (fastforce split: if_splits)
qed

lemma rmatch_chars: "p \<in> set (rmatch r s) \<Longrightarrow> set p \<subseteq> chars r"
proof (induction r arbitrary: s p)
  case (Lit c)
  then show ?case by (auto split: list.splits if_splits)
next
  case (Cls C)
  then show ?case by (auto split: list.splits if_splits)
next
  case (Seq a b)
  then show ?case by fastforce
next
  case (Alt a b)
  then show ?case by fastforce
next
  case (Opt a)
  then show ?case by fastforce
next
  case (Star a)
  then show ?case using star_iter_chars [of "rmatch a" "chars a"] by auto
next
  case (Plus a)
  from Plus.prems obtain q t where q: "q \<in> set (rmatch a s)"
    and t: "t \<in> set (star_iter (rmatch a) (length s) (drop (length q) s))" and p: "p = q @ t"
    by auto
  from star_iter_chars [of "rmatch a" "chars a", OF Plus.IH t] Plus.IH [OF q]
  show ?case by (auto simp: p)
qed

lemma rmatch_nullable: "[] \<in> set (rmatch r s) \<Longrightarrow> nullable r"
proof (induction r arbitrary: s)
  case (Lit c)
  then show ?case by (auto split: list.splits if_splits)
next
  case (Cls C)
  then show ?case by (auto split: list.splits if_splits)
next
  case (Seq a b)
  then show ?case by auto
next
  case (Alt a b)
  then show ?case by auto
next
  case (Plus a)
  then show ?case by auto
qed simp_all

lemma star_iter_first:
  assumes m: "\<And>s p. p \<in> set (m s) \<Longrightarrow> p \<noteq> [] \<Longrightarrow> hd p \<in> A"
  shows "p \<in> set (star_iter m n s) \<Longrightarrow> p \<noteq> [] \<Longrightarrow> hd p \<in> A"
proof (cases n)
  case 0
  assume "p \<in> set (star_iter m n s)" "p \<noteq> []"
  with 0 show ?thesis by simp
next
  case (Suc k)
  assume "p \<in> set (star_iter m n s)" "p \<noteq> []"
  with Suc obtain q t where "q \<in> set (m s)" "q \<noteq> []" "p = q @ t"
    by (auto split: if_splits)
  with m [of q s] show ?thesis by simp
qed

lemma rmatch_first: "p \<in> set (rmatch r s) \<Longrightarrow> p \<noteq> [] \<Longrightarrow> hd p \<in> first r"
proof (induction r arbitrary: s p)
  case (Lit c)
  then show ?case by (auto split: list.splits if_splits)
next
  case (Cls C)
  then show ?case by (auto split: list.splits if_splits)
next
  case (Seq a b)
  from Seq.prems obtain q t where q: "q \<in> set (rmatch a s)"
    and t: "t \<in> set (rmatch b (drop (length q) s))" and p: "p = q @ t"
    by auto
  show ?case
  proof (cases "q = []")
    case True
    with q have "nullable a" by (auto dest: rmatch_nullable)
    moreover from True p Seq.prems(2) Seq.IH(2) [OF t] have "hd p \<in> first b" by simp
    ultimately show ?thesis by simp
  next
    case False
    with Seq.IH(1) [OF q] p show ?thesis by simp
  qed
next
  case (Alt a b)
  then show ?case by auto
next
  case (Opt a)
  then show ?case by auto
next
  case (Star a)
  then show ?case using star_iter_first [of "rmatch a" "first a"] by auto
next
  case (Plus a)
  from Plus.prems obtain q t where q: "q \<in> set (rmatch a s)"
    and t: "t \<in> set (star_iter (rmatch a) (length s) (drop (length q) s))" and p: "p = q @ t"
    by auto
  show ?case
  proof (cases "q = []")
    case True
    with p Plus.prems(2) star_iter_first [of "rmatch a" "first a", OF Plus.IH t]
    show ?thesis by simp
  next
    case False
    with Plus.IH [OF q] p show ?thesis by simp
  qed
qed

lemmas rx_defs =
  WHITESPACE_rx_def newline_rx_def COMMENT_rx_def STRING_rx_def NUM_rx_def lit2_def ID_rx_def

lemma re_match_SomeD: "re_match r s k = Some lx \<Longrightarrow> lx \<in> set (rmatch r (drop k s))"
  by (auto simp: re_match_def split: list.splits)

lemma re_match_None_iff: "re_match r s k = None \<longleftrightarrow> rmatch r (drop k s) = []"
  by (auto simp: re_match_def split: list.splits)

lemma find_match_SomeD:
  "find_match rules s k = Some (tok_name, lx) \<Longrightarrow>
   \<exists>tok_re. (tok_name, tok_re) \<in> set rules \<and> re_match tok_re s k = Some lx"
  by (induction rules s k rule: find_match.induct) (auto split: option.splits)

lemma find_match_None_iff:
  "find_match rules s k = None \<longleftrightarrow> (\<forall>(tok_name, tok_re) \<in> set rules. re_match tok_re s k = None)"
  by (induction rules s k rule: find_match.induct) (auto split: option.splits)

lemma prefix_drop_take:
  assumes "prefix lx (drop k s)"
  shows "take (k + length lx) s = take k s @ lx" and "k \<le> length s \<Longrightarrow> k + length lx \<le> length s"
proof -
  from assms obtain u where u: "drop k s = lx @ u" by (auto simp: prefix_def)
  then have "take (length lx) (drop k s) = lx" by simp
  then show "take (k + length lx) s = take k s @ lx" by (simp add: take_add)
  assume "k \<le> length s"
  moreover from u have "length (drop k s) = length lx + length u" by (metis length_append)
  ultimately show "k + length lx \<le> length s" by simp
qed

lemma find_match_prefix:
  "find_match rules s k = Some (tok_name, lx) \<Longrightarrow> prefix lx (drop k s)"
  by (blast dest: find_match_SomeD re_match_SomeD rmatch_prefix)

lemma find_match_nonempty:
  assumes "no_empty_match rules" and "find_match rules s k = Some (tok_name, lx)"
  shows "lx \<noteq> []"
proof
  assume "lx = []"
  with assms(2) obtain tok_re where r: "(tok_name, tok_re) \<in> set rules"
    and e: "[] \<in> set (rmatch tok_re (drop k s))"
    by (blast dest: find_match_SomeD re_match_SomeD)
  from e have "nullable tok_re" by (rule rmatch_nullable)
  with assms(1) r show False by (auto simp: no_empty_match_def list_all_iff)
qed

lemma nullable_rules:
  "\<not> nullable WHITESPACE_rx" "\<not> nullable newline_rx" "\<not> nullable COMMENT_rx"
  "\<not> nullable STRING_rx" "\<not> nullable (NUM_rx E)" "\<not> nullable (lit2 a b)"
  "\<not> nullable ID_rx"
  by (simp_all add: rx_defs)

lemma no_empty_match_token_specification: "no_empty_match token_specification"
  unfolding no_empty_match_def token_specification_def
  by (simp add: rx_defs)

lemma no_empty_match_token_specification_AL: "no_empty_match token_specification_AL"
  unfolding no_empty_match_def token_specification_AL_def
  by (simp add: rx_defs)

lemma lex_body_Some:
  "find_match token_specification s (pos st) = Some (tok_name, lx) \<Longrightarrow>
   lex_body s st =
     Inr \<lparr>tokens = tokens st @ emit tok_name lx (cur_line st) (cur_col st),
          pos = pos st + length lx,
          cur_line = fst (advance_position (cur_line st) (cur_col st) lx),
          cur_col = snd (advance_position (cur_line st) (cur_col st) lx)\<rparr>"
  by (simp add: lex_body_def split: prod.splits)

lemma lex_body_None:
  "find_match token_specification s (pos st) = None \<Longrightarrow>
   lex_body s st = Inl (LexerError (s ! pos st) (cur_line st) (cur_col st))"
  by (simp add: lex_body_def)

lemma lex_body_AL_Some:
  "find_match token_specification_AL s (pos st) = Some (tok_name, lx) \<Longrightarrow>
   lex_body_AL s st =
     Inr \<lparr>tokens = tokens st @ emit_AL tok_name lx
            (fst (advance_AL (cur_line st) (cur_col st) lx))
            (snd (advance_AL (cur_line st) (cur_col st) lx)),
          pos = pos st + length lx,
          cur_line = fst (advance_AL (cur_line st) (cur_col st) lx),
          cur_col = snd (advance_AL (cur_line st) (cur_col st) lx)\<rparr>"
  by (simp add: lex_body_AL_def split: prod.splits)

lemma lex_body_AL_None:
  "find_match token_specification_AL s (pos st) = None \<Longrightarrow>
   lex_body_AL s st = Inl (LexerError (s ! pos st) (cur_line st) (cur_col st))"
  by (simp add: lex_body_AL_def)

lemma advancesD:
  "advances rules body \<Longrightarrow> find_match rules s (pos st) = Some (tok_name, lx) \<Longrightarrow>
   body s st = Inr st' \<Longrightarrow> pos st' = pos st + length lx"
  unfolding advances_def by blast

lemma advances_lex_body: "advances token_specification lex_body"
  by (auto simp: advances_def lex_body_Some)

lemma advances_lex_body_AL: "advances token_specification_AL lex_body_AL"
  by (auto simp: advances_def lex_body_AL_Some)

lemma steps_consumed:
  assumes "advances rules body" and "steps rules body s ms st"
  shows "concat (map snd ms) = take (pos st) s \<and> pos st \<le> length s"
  using assms(2)
proof (induction rule: steps.induct)
  case steps_init
  show ?case by (simp add: init_state_def)
next
  case (steps_step ms st tok_name lx st')
  from assms(1) steps_step.hyps(3,4) have p: "pos st' = pos st + length lx"
    by (rule advancesD)
  from steps_step.hyps(3) have "prefix lx (drop (pos st) s)" by (rule find_match_prefix)
  then have t: "take (pos st + length lx) s = take (pos st) s @ lx"
    and l: "pos st \<le> length s \<Longrightarrow> pos st + length lx \<le> length s"
    by (rule prefix_drop_take)+
  from steps_step.IH have c: "concat (map snd ms) = take (pos st) s" and "pos st \<le> length s"
    by simp_all
  with l have "pos st' \<le> length s" by (simp only: p)
  moreover have "concat (map snd (ms @ [(tok_name, lx)])) = take (pos st') s"
    by (simp add: c t p)
  ultimately show ?case by simp
qed

lemma lex_body_pos:
  assumes "lex_body s st = Inr st'"
  shows "\<exists>tok_name lx. find_match token_specification s (pos st) = Some (tok_name, lx) \<and>
     lx \<noteq> [] \<and> pos st' = pos st + length lx"
proof (cases "find_match token_specification s (pos st)")
  case None
  with assms show ?thesis by (simp add: lex_body_None)
next
  case (Some m)
  obtain tok_name lx where m: "m = (tok_name, lx)" by (cases m)
  from Some m have f: "find_match token_specification s (pos st) = Some (tok_name, lx)" by simp
  from no_empty_match_token_specification f have "lx \<noteq> []" by (rule find_match_nonempty)
  moreover from advances_lex_body f assms have "pos st' = pos st + length lx" by (rule advancesD)
  ultimately show ?thesis using f by blast
qed

lemma lex_loop_end:
  "\<not> pos st < length s \<Longrightarrow>
   lex_loop s st = Some (Inr (tokens st @
     [\<lparr>token = ''EOF'', cadena = dict_get DESCRIPTION_MAP ''EOF'' ''EOF'', lexeme = [],
       line = cur_line st, col = cur_col st\<rparr>]))"
  by (subst lex_loop.simps) simp

lemma lex_loop_error:
  "pos st < length s \<Longrightarrow> find_match token_specification s (pos st) = None \<Longrightarrow>
   lex_loop s st = Some (Inl (LexerError (s ! pos st) (cur_line st) (cur_col st)))"
  by (subst lex_loop.simps) (simp add: lex_body_None)

lemma lex_loop_step:
  "pos st < length s \<Longrightarrow> lex_body s st = Inr st' \<Longrightarrow> lex_loop s st = lex_loop s st'"
  by (subst lex_loop.simps) simp


lemma lex_loop_run:
  assumes "reached s ms st"
  shows "\<exists>ms' st'. reached s ms' st' \<and>
    (pos st' = length s \<and>
       lex_loop s st = Some (Inr (tokens st' @
         [\<lparr>token = ''EOF'', cadena = dict_get DESCRIPTION_MAP ''EOF'' ''EOF'', lexeme = [],
           line = cur_line st', col = cur_col st'\<rparr>]))
     \<or> pos st' < length s \<and> find_match token_specification s (pos st') = None \<and>
       lex_loop s st = Some (Inl (LexerError (s ! pos st') (cur_line st') (cur_col st'))))"
  using assms
proof (induction "length s - pos st" arbitrary: ms st rule: less_induct)
  case less
  from advances_lex_body less.prems have le: "pos st \<le> length s"
    by (blast dest: steps_consumed)
  show ?case
  proof (cases "pos st < length s")
    case False
    with le have "pos st = length s" by simp
    moreover note lex_loop_end [OF False] less.prems
    ultimately show ?thesis by blast
  next
    case True
    show ?thesis
    proof (cases "find_match token_specification s (pos st)")
      case None
      from lex_loop_error [OF True None] True None less.prems show ?thesis by blast
    next
      case (Some m)
      obtain tok_name lx where m: "m = (tok_name, lx)" by (cases m)
      from Some m have f: "find_match token_specification s (pos st) = Some (tok_name, lx)"
        by simp
      then obtain st1 where b: "lex_body s st = Inr st1" by (simp add: lex_body_Some)
      from less.prems True f b have r: "reached s (ms @ [(tok_name, lx)]) st1"
        by (rule steps_step)
      from b f have "pos st < pos st1" by (auto dest: lex_body_pos)
      moreover from advances_lex_body r have "pos st1 \<le> length s"
        by (blast dest: steps_consumed)
      ultimately have "length s - pos st1 < length s - pos st" using True by simp
      from less.hyps [OF this r] lex_loop_step [OF True b] show ?thesis by simp
    qed
  qed
qed

lemma lex_body_AL_pos:
  assumes "lex_body_AL s st = Inr st'"
  shows "\<exists>tok_name lx. find_match token_specification_AL s (pos st) = Some (tok_name, lx) \<and>
     lx \<noteq> [] \<and> pos st' = pos st + length lx"
proof (cases "find_match token_specification_AL s (pos st)")
  case None
  with assms show ?thesis by (simp add: lex_body_AL_None)
next
  case (Some m)
  obtain tok_name lx where m: "m = (tok_name, lx)" by (cases m)
  from Some m have f: "find_match token_specification_AL s (pos st) = Some (tok_name, lx)" by simp
  from no_empty_match_token_specification_AL f have "lx \<noteq> []" by (rule find_match_nonempty)
  moreover from advances_lex_body_AL f assms have "pos st' = pos st + length lx" by (rule advancesD)
  ultimately show ?thesis using f by blast
qed

lemma lex_loop_AL_end:
  "\<not> pos st < length s \<Longrightarrow>
   lex_loop_AL s st = Some (Inr (tokens st @
     [\<lparr>type_AL = ''EOF'', lexeme_AL = [], line_AL = cur_line st, col_AL = cur_col st\<rparr>]))"
  by (subst lex_loop_AL.simps) simp

lemma lex_loop_AL_error:
  "pos st < length s \<Longrightarrow> find_match token_specification_AL s (pos st) = None \<Longrightarrow>
   lex_loop_AL s st = Some (Inl (LexerError (s ! pos st) (cur_line st) (cur_col st)))"
  by (subst lex_loop_AL.simps) (simp add: lex_body_AL_None)

lemma lex_loop_AL_step:
  "pos st < length s \<Longrightarrow> lex_body_AL s st = Inr st' \<Longrightarrow> lex_loop_AL s st = lex_loop_AL s st'"
  by (subst lex_loop_AL.simps) simp


lemma lex_loop_AL_run:
  assumes "reached_AL s ms st"
  shows "\<exists>ms' st'. reached_AL s ms' st' \<and>
    (pos st' = length s \<and>
       lex_loop_AL s st = Some (Inr (tokens st' @
         [\<lparr>type_AL = ''EOF'', lexeme_AL = [], line_AL = cur_line st', col_AL = cur_col st'\<rparr>]))
     \<or> pos st' < length s \<and> find_match token_specification_AL s (pos st') = None \<and>
       lex_loop_AL s st = Some (Inl (LexerError (s ! pos st') (cur_line st') (cur_col st'))))"
  using assms
proof (induction "length s - pos st" arbitrary: ms st rule: less_induct)
  case less
  from advances_lex_body_AL less.prems have le: "pos st \<le> length s"
    by (blast dest: steps_consumed)
  show ?case
  proof (cases "pos st < length s")
    case False
    with le have "pos st = length s" by simp
    moreover note lex_loop_AL_end [OF False] less.prems
    ultimately show ?thesis by blast
  next
    case True
    show ?thesis
    proof (cases "find_match token_specification_AL s (pos st)")
      case None
      from lex_loop_AL_error [OF True None] True None less.prems show ?thesis by blast
    next
      case (Some m)
      obtain tok_name lx where m: "m = (tok_name, lx)" by (cases m)
      from Some m have f: "find_match token_specification_AL s (pos st) = Some (tok_name, lx)"
        by simp
      then obtain st1 where b: "lex_body_AL s st = Inr st1" by (simp add: lex_body_AL_Some)
      from less.prems True f b have r: "reached_AL s (ms @ [(tok_name, lx)]) st1"
        by (rule steps_step)
      from b f have "pos st < pos st1" by (auto dest: lex_body_AL_pos)
      moreover from advances_lex_body_AL r have "pos st1 \<le> length s"
        by (blast dest: steps_consumed)
      ultimately have "length s - pos st1 < length s - pos st" using True by simp
      from less.hyps [OF this r] lex_loop_AL_step [OF True b] show ?thesis by simp
    qed
  qed
qed

lemma KEYWORDS_not_EOF: "KEYWORDS w = Some k \<Longrightarrow> k \<noteq> ''EOF''"
  unfolding KEYWORDS_def by (drule map_of_SomeD) auto

lemma operator_map_not_EOF: "operator_map w = Some k \<Longrightarrow> k \<noteq> ''EOF''"
  unfolding operator_map_def by (drule map_of_SomeD) auto

lemma emit_skipped: "skipped tok_name \<Longrightarrow> emit tok_name lx l c = []"
  by (simp add: emit_def)

lemma emit_token:
  "\<not> skipped tok_name \<Longrightarrow>
   \<exists>t. emit tok_name lx l c = [t] \<and> lexeme t = lx \<and> line t = l \<and> col t = c"
  by (auto simp: emit_def Let_def split: option.splits)

lemma emit_not_EOF:
  "tok_name \<noteq> ''EOF'' \<Longrightarrow> t \<in> set (emit tok_name lx l c) \<Longrightarrow> token t \<noteq> ''EOF''"
  by (auto simp: emit_def Let_def dict_get_def
      dest: KEYWORDS_not_EOF operator_map_not_EOF split: option.splits if_splits)

lemma token_specification_names: "(''EOF'', tok_re) \<notin> set token_specification"
  unfolding token_specification_def by simp

lemma reached_tokens:
  "reached s ms st \<Longrightarrow>
   map lexeme (tokens st) = map snd (filter (\<lambda>m. \<not> skipped (fst m)) ms) \<and>
   (\<forall>t \<in> set (tokens st). lexeme t \<noteq> [] \<and> token t \<noteq> ''EOF'')"
proof (induction rule: steps.induct)
  case steps_init
  show ?case by (simp add: init_state_def)
next
  case (steps_step ms st tok_name lx st')
  from steps_step.hyps(3,4)
  have t: "tokens st' = tokens st @ emit tok_name lx (cur_line st) (cur_col st)"
    by (auto simp: lex_body_Some)
  from no_empty_match_token_specification steps_step.hyps(3) have lx: "lx \<noteq> []"
    by (rule find_match_nonempty)
  from steps_step.hyps(3) have n: "tok_name \<noteq> ''EOF''"
    by (auto dest: find_match_SomeD simp: token_specification_names)
  show ?case
  proof (cases "skipped tok_name")
    case True
    with steps_step.IH t show ?thesis by (simp add: emit_skipped)
  next
    case False
    from emit_token [OF False] obtain tk
      where e: "emit tok_name lx (cur_line st) (cur_col st) = [tk]" and l: "lexeme tk = lx"
      by blast
    from emit_not_EOF [OF n, of tk lx "cur_line st" "cur_col st"] e
    have "token tk \<noteq> ''EOF''" by simp
    with steps_step.IH t e l lx False show ?thesis by simp
  qed
qed

lemma lex_Inr_run:
  assumes "lex s = Some (Inr toks)"
  shows "\<exists>ms st. reached s ms st \<and> pos st = length s \<and>
     toks = tokens st @
       [\<lparr>token = ''EOF'', cadena = dict_get DESCRIPTION_MAP ''EOF'' ''EOF'', lexeme = [],
         line = cur_line st, col = cur_col st\<rparr>]"
proof -
  have "reached s [] init_state" by (rule steps_init)
  from lex_loop_run [OF this] assms show ?thesis
    unfolding lex_def by auto
qed

lemma lex_Inl_run:
  assumes "lex s = Some (Inl e)"
  shows "\<exists>ms st. reached s ms st \<and> pos st < length s \<and>
     find_match token_specification s (pos st) = None \<and>
     e = LexerError (s ! pos st) (cur_line st) (cur_col st)"
proof -
  have "reached s [] init_state" by (rule steps_init)
  from lex_loop_run [OF this] assms show ?thesis
    unfolding lex_def by auto
qed

lemma lex_total: "\<exists>r. lex s = Some r"
proof -
  have "reached s [] init_state" by (rule steps_init)
  from lex_loop_run [OF this] show ?thesis
    unfolding lex_def by auto
qed

lemma operator_map_AL_not_EOF: "operator_map_AL w = Some k \<Longrightarrow> k \<noteq> ''EOF''"
  unfolding operator_map_AL_def by (drule map_of_SomeD) auto

lemma emit_AL_skipped: "skipped tok_name \<Longrightarrow> emit_AL tok_name lx l c = []"
  by (simp add: emit_AL_def)

lemma emit_AL_token:
  "\<not> skipped tok_name \<Longrightarrow>
   \<exists>t. emit_AL tok_name lx l c = [t] \<and> lexeme_AL t = lx \<and> line_AL t = l \<and>
     col_AL t = c - int (length lx)"
  by (auto simp: emit_AL_def Let_def split: option.splits)

lemma emit_AL_not_EOF:
  "tok_name \<noteq> ''EOF'' \<Longrightarrow> t \<in> set (emit_AL tok_name lx l c) \<Longrightarrow> type_AL t \<noteq> ''EOF''"
  by (auto simp: emit_AL_def Let_def dict_get_def
      dest: KEYWORDS_not_EOF operator_map_AL_not_EOF split: option.splits if_splits)

lemma token_specification_AL_names: "(''EOF'', tok_re) \<notin> set token_specification_AL"
  unfolding token_specification_AL_def by simp

lemma reached_AL_tokens:
  "reached_AL s ms st \<Longrightarrow>
   map lexeme_AL (tokens st) = map snd (filter (\<lambda>m. \<not> skipped (fst m)) ms) \<and>
   (\<forall>t \<in> set (tokens st). lexeme_AL t \<noteq> [] \<and> type_AL t \<noteq> ''EOF'')"
proof (induction rule: steps.induct)
  case steps_init
  show ?case by (simp add: init_state_def)
next
  case (steps_step ms st tok_name lx st')
  from steps_step.hyps(3,4)
  have t: "tokens st' = tokens st @ emit_AL tok_name lx
      (fst (advance_AL (cur_line st) (cur_col st) lx)) (snd (advance_AL (cur_line st) (cur_col st) lx))"
    by (auto simp: lex_body_AL_Some)
  from no_empty_match_token_specification_AL steps_step.hyps(3) have lx: "lx \<noteq> []"
    by (rule find_match_nonempty)
  from steps_step.hyps(3) have n: "tok_name \<noteq> ''EOF''"
    by (auto dest: find_match_SomeD simp: token_specification_AL_names)
  show ?case
  proof (cases "skipped tok_name")
    case True
    with steps_step.IH t show ?thesis by (simp add: emit_AL_skipped)
  next
    case False
    from emit_AL_token [OF False] obtain tk
      where e: "emit_AL tok_name lx
      (fst (advance_AL (cur_line st) (cur_col st) lx)) (snd (advance_AL (cur_line st) (cur_col st) lx)) = [tk]" and l: "lexeme_AL tk = lx"
      by blast
    from emit_AL_not_EOF [OF n, of tk lx "fst (advance_AL (cur_line st) (cur_col st) lx)"
        "snd (advance_AL (cur_line st) (cur_col st) lx)"] e
    have "type_AL tk \<noteq> ''EOF''" by simp
    with steps_step.IH t e l lx False show ?thesis by simp
  qed
qed

lemma lex_AL_Inr_run:
  assumes "lex_AL s = Some (Inr toks)"
  shows "\<exists>ms st. reached_AL s ms st \<and> pos st = length s \<and>
     toks = tokens st @
       [\<lparr>type_AL = ''EOF'', lexeme_AL = [], line_AL = cur_line st, col_AL = cur_col st\<rparr>]"
proof -
  have "reached_AL s [] init_state" by (rule steps_init)
  from lex_loop_AL_run [OF this] assms show ?thesis
    unfolding lex_AL_def by auto
qed

lemma lex_AL_Inl_run:
  assumes "lex_AL s = Some (Inl e)"
  shows "\<exists>ms st. reached_AL s ms st \<and> pos st < length s \<and>
     find_match token_specification_AL s (pos st) = None \<and>
     e = LexerError (s ! pos st) (cur_line st) (cur_col st)"
proof -
  have "reached_AL s [] init_state" by (rule steps_init)
  from lex_loop_AL_run [OF this] assms show ?thesis
    unfolding lex_AL_def by auto
qed

lemma lex_AL_total: "\<exists>r. lex_AL s = Some r"
proof -
  have "reached_AL s [] init_state" by (rule steps_init)
  from lex_loop_AL_run [OF this] show ?thesis
    unfolding lex_AL_def by auto
qed

lemmas lex_eval =
  lex_def init_state_def lex_loop.simps lex_body_def token_specification_def re_match_def
  rx_defs digit_def letter_def advance_position_def emit_def skipped_def KEYWORDS_def
  lower_def lower_char_def dict_get_def DESCRIPTION_MAP_def operator_map_def re_split.simps

lemmas lex_AL_eval =
  lex_AL_def init_state_def lex_loop_AL.simps lex_body_AL_def token_specification_AL_def
  re_match_def rx_defs digit_def letter_def advance_AL_def emit_AL_def skipped_def KEYWORDS_def
  lower_def lower_char_def dict_get_def operator_map_AL_def re_findall.simps

lemma lex_x_semi:
  "lex ''x;'' = Some (Inr
     [\<lparr>token = ''ID'', cadena = ''IDENTIFICADOR'', lexeme = ''x'', line = 1, col = 1\<rparr>,
      \<lparr>token = ''SEMI'', cadena = ''PUNTO_Y_COMA'', lexeme = '';'', line = 1, col = 2\<rparr>,
      \<lparr>token = ''EOF'', cadena = ''EOF'', lexeme = [], line = 1, col = 3\<rparr>])"
  by (simp add: lex_eval)

lemma lex_AL_x_semi:
  "lex_AL ''x;'' = Some (Inr
     [\<lparr>type_AL = ''ID'', lexeme_AL = ''x'', line_AL = 1, col_AL = 1\<rparr>,
      \<lparr>type_AL = ''SEMI'', lexeme_AL = '';'', line_AL = 1, col_AL = 2\<rparr>,
      \<lparr>type_AL = ''EOF'', lexeme_AL = [], line_AL = 1, col_AL = 3\<rparr>])"
  by (simp add: lex_AL_eval)

lemma find_match_x_semi:
  "find_match token_specification ''x;'' 0 = Some (''ID'', ''x'')"
  "find_match token_specification_AL ''x;'' 0 = Some (''ID'', ''x'')"
  by (simp_all add: token_specification_def token_specification_AL_def re_match_def rx_defs
      digit_def letter_def)

lemma lex_body_x_semi:
  "lex_body ''x;'' init_state =
     Inr \<lparr>tokens = [\<lparr>token = ''ID'', cadena = ''IDENTIFICADOR'', lexeme = ''x'', line = 1, col = 1\<rparr>],
          pos = 1, cur_line = 1, cur_col = 2\<rparr>"
  by (simp add: lex_eval)

lemma lex_body_AL_x_semi:
  "lex_body_AL ''x;'' init_state =
     Inr \<lparr>tokens = [\<lparr>type_AL = ''ID'', lexeme_AL = ''x'', line_AL = 1, col_AL = 1\<rparr>],
          pos = 1, cur_line = 1, cur_col = 2\<rparr>"
  by (simp add: lex_AL_eval)

lemma reached_x_semi:
  "reached ''x;'' [(''ID'', ''x'')]
     \<lparr>tokens = [\<lparr>token = ''ID'', cadena = ''IDENTIFICADOR'', lexeme = ''x'', line = 1, col = 1\<rparr>],
      pos = 1, cur_line = 1, cur_col = 2\<rparr>"
proof -
  have p: "pos (init_state :: Token lex_state) < length ''x;''" by (simp add: init_state_def)
  have f: "find_match token_specification ''x;'' (pos (init_state :: Token lex_state)) =
      Some (''ID'', ''x'')"
    by (simp add: init_state_def find_match_x_semi)
  have "reached ''x;'' ([] @ [(''ID'', ''x'')])
     \<lparr>tokens = [\<lparr>token = ''ID'', cadena = ''IDENTIFICADOR'', lexeme = ''x'', line = 1, col = 1\<rparr>],
      pos = 1, cur_line = 1, cur_col = 2\<rparr>"
    using steps_init p f lex_body_x_semi by (rule steps_step)
  then show ?thesis by simp
qed

lemma reached_AL_x_semi:
  "reached_AL ''x;'' [(''ID'', ''x'')]
     \<lparr>tokens = [\<lparr>type_AL = ''ID'', lexeme_AL = ''x'', line_AL = 1, col_AL = 1\<rparr>],
      pos = 1, cur_line = 1, cur_col = 2\<rparr>"
proof -
  have p: "pos (init_state :: Token_AL lex_state) < length ''x;''" by (simp add: init_state_def)
  have f: "find_match token_specification_AL ''x;'' (pos (init_state :: Token_AL lex_state)) =
      Some (''ID'', ''x'')"
    by (simp add: init_state_def find_match_x_semi)
  have "reached_AL ''x;'' ([] @ [(''ID'', ''x'')])
     \<lparr>tokens = [\<lparr>type_AL = ''ID'', lexeme_AL = ''x'', line_AL = 1, col_AL = 1\<rparr>],
      pos = 1, cur_line = 1, cur_col = 2\<rparr>"
    using steps_init p f lex_body_AL_x_semi by (rule steps_step)
  then show ?thesis by simp
qed

section \<open>Termination of the loop and the text it consumes\<close>

text \<open>
  C10. \<^verbatim>\<open>lex\<close> terminates on every source text, in both lexers: it returns a result
  (the loop's value is never \<open>None\<close>); an iteration that raises no error moves the offset
  forward by at least one character; no pattern of either rule table matches the empty
  string at any offset of any text; and a successful result is a token sequence whose last
  token is the end-of-input marker.
\<close>

theorem lex_terminates:
  "(\<exists>r. lex s = Some r) \<and> (\<exists>r. lex_AL s = Some r) \<and>
   (lex_body s st = Inr st' \<longrightarrow> pos st < pos st') \<and>
   (lex_body_AL s st_AL = Inr st_AL' \<longrightarrow> pos st_AL < pos st_AL') \<and>
   ((tok_name, tok_re) \<in> set token_specification \<union> set token_specification_AL \<longrightarrow>
      re_match tok_re t k \<noteq> Some []) \<and>
   (lex s = Some (Inr toks) \<longrightarrow> toks \<noteq> [] \<and> token (last toks) = ''EOF'') \<and>
   (lex_AL s = Some (Inr toks_AL) \<longrightarrow> toks_AL \<noteq> [] \<and> type_AL (last toks_AL) = ''EOF'')"
proof -
  have "pos st < pos st'" if "lex_body s st = Inr st'"
    using lex_body_pos [OF that] by auto
  moreover have "pos st_AL < pos st_AL'" if "lex_body_AL s st_AL = Inr st_AL'"
    using lex_body_AL_pos [OF that] by auto
  moreover have "re_match tok_re t k \<noteq> Some []"
    if m: "(tok_name, tok_re) \<in> set token_specification \<union> set token_specification_AL"
  proof
    assume "re_match tok_re t k = Some []"
    then have "[] \<in> set (rmatch tok_re (drop k t))" by (rule re_match_SomeD)
    then have "nullable tok_re" by (rule rmatch_nullable)
    with m no_empty_match_token_specification no_empty_match_token_specification_AL
    show False by (auto simp: no_empty_match_def list_all_iff)
  qed
  moreover have "toks \<noteq> [] \<and> token (last toks) = ''EOF''" if "lex s = Some (Inr toks)"
    using lex_Inr_run [OF that] by auto
  moreover have "toks_AL \<noteq> [] \<and> type_AL (last toks_AL) = ''EOF''"
    if "lex_AL s = Some (Inr toks_AL)"
    using lex_AL_Inr_run [OF that] by auto
  ultimately show ?thesis using lex_total [of s] lex_AL_total [of s] by blast
qed

text \<open>
  The witness of C10: on the source text \<^verbatim>\<open>x;\<close> both lexers return; the first iteration
  moves the offset from 0 to 1; the ID rule, which is in both tables, does not match the
  empty string at offset 0 of \<^verbatim>\<open>x\<close>; and the last token of each result is the marker.
\<close>

theorem lex_terminates_witness:
  "(\<exists>r. lex ''x;'' = Some r) \<and> (\<exists>r. lex_AL ''x;'' = Some r) \<and>
   pos (init_state :: Token lex_state) <
     pos \<lparr>tokens = [\<lparr>token = ''ID'', cadena = ''IDENTIFICADOR'', lexeme = ''x'', line = 1, col = 1\<rparr>],
          pos = 1, cur_line = 1, cur_col = 2\<rparr> \<and>
   pos (init_state :: Token_AL lex_state) <
     pos \<lparr>tokens = [\<lparr>type_AL = ''ID'', lexeme_AL = ''x'', line_AL = 1, col_AL = 1\<rparr>],
          pos = 1, cur_line = 1, cur_col = 2\<rparr> \<and>
   re_match ID_rx ''x'' 0 \<noteq> Some [] \<and>
   token (last
     [\<lparr>token = ''ID'', cadena = ''IDENTIFICADOR'', lexeme = ''x'', line = 1, col = 1\<rparr>,
      \<lparr>token = ''SEMI'', cadena = ''PUNTO_Y_COMA'', lexeme = '';'', line = 1, col = 2\<rparr>,
      \<lparr>token = ''EOF'', cadena = ''EOF'', lexeme = [], line = 1, col = 3\<rparr>]) = ''EOF'' \<and>
   type_AL (last
     [\<lparr>type_AL = ''ID'', lexeme_AL = ''x'', line_AL = 1, col_AL = 1\<rparr>,
      \<lparr>type_AL = ''SEMI'', lexeme_AL = '';'', line_AL = 1, col_AL = 2\<rparr>,
      \<lparr>type_AL = ''EOF'', lexeme_AL = [], line_AL = 1, col_AL = 3\<rparr>]) = ''EOF''"
proof -
  have m: "(''ID'', ID_rx) \<in> set token_specification \<union> set token_specification_AL"
    by (simp add: token_specification_def)
  note t = lex_terminates [where s = "''x;''" and tok_name = "''ID''" and tok_re = ID_rx
      and t = "''x''" and k = 0]
  from t have "\<exists>r. lex ''x;'' = Some r" by (rule conjunct1)
  moreover from t have "\<exists>r. lex_AL ''x;'' = Some r" by blast
  moreover from t lex_body_x_semi
  have "pos (init_state :: Token lex_state) <
     pos \<lparr>tokens = [\<lparr>token = ''ID'', cadena = ''IDENTIFICADOR'', lexeme = ''x'', line = 1, col = 1\<rparr>],
          pos = 1, cur_line = 1, cur_col = 2\<rparr>"
    by blast
  moreover from t lex_body_AL_x_semi
  have "pos (init_state :: Token_AL lex_state) <
     pos \<lparr>tokens = [\<lparr>type_AL = ''ID'', lexeme_AL = ''x'', line_AL = 1, col_AL = 1\<rparr>],
          pos = 1, cur_line = 1, cur_col = 2\<rparr>"
    by blast
  moreover from t m have "re_match ID_rx ''x'' 0 \<noteq> Some []" by blast
  moreover from t lex_x_semi
  have "token (last
     [\<lparr>token = ''ID'', cadena = ''IDENTIFICADOR'', lexeme = ''x'', line = 1, col = 1\<rparr>,
      \<lparr>token = ''SEMI'', cadena = ''PUNTO_Y_COMA'', lexeme = '';'', line = 1, col = 2\<rparr>,
      \<lparr>token = ''EOF'', cadena = ''EOF'', lexeme = [], line = 1, col = 3\<rparr>]) = ''EOF''"
    by blast
  moreover from t lex_AL_x_semi
  have "type_AL (last
     [\<lparr>type_AL = ''ID'', lexeme_AL = ''x'', line_AL = 1, col_AL = 1\<rparr>,
      \<lparr>type_AL = ''SEMI'', lexeme_AL = '';'', line_AL = 1, col_AL = 2\<rparr>,
      \<lparr>type_AL = ''EOF'', lexeme_AL = [], line_AL = 1, col_AL = 3\<rparr>]) = ''EOF''"
    by blast
  ultimately show ?thesis by blast
qed

lemma cadena_EOF: "dict_get DESCRIPTION_MAP ''EOF'' ''EOF'' = ''EOF''"
  by (simp add: dict_get_def DESCRIPTION_MAP_def)

text \<open>
  C1. In both lexers, at the head of every iteration of the driving loop the matched
  lexemes so far, the skipped ones included and in match order, concatenate to the
  consumed prefix \<open>take pos s\<close>, and the lexemes of the tokens emitted so far are those of
  the matches that are not skipped. When \<^verbatim>\<open>lex\<close> succeeds, the loop has reached the end of
  the text, so the concatenation of all matched lexemes is the source text itself.
\<close>

theorem matched_lexemes_reconstruct_source:
  "(reached s ms st \<longrightarrow>
      concat (map snd ms) = take (pos st) s \<and>
      map lexeme (tokens st) = map snd (filter (\<lambda>m. \<not> skipped (fst m)) ms)) \<and>
   (reached_AL s ms_AL st_AL \<longrightarrow>
      concat (map snd ms_AL) = take (pos st_AL) s \<and>
      map lexeme_AL (tokens st_AL) = map snd (filter (\<lambda>m. \<not> skipped (fst m)) ms_AL)) \<and>
   (lex s = Some (Inr toks) \<longrightarrow>
      (\<exists>ms' st'. reached s ms' st' \<and> concat (map snd ms') = s \<and>
         butlast toks = tokens st' \<and>
         map lexeme (butlast toks) = map snd (filter (\<lambda>m. \<not> skipped (fst m)) ms'))) \<and>
   (lex_AL s = Some (Inr toks_AL) \<longrightarrow>
      (\<exists>ms' st'. reached_AL s ms' st' \<and> concat (map snd ms') = s \<and>
         butlast toks_AL = tokens st' \<and>
         map lexeme_AL (butlast toks_AL) = map snd (filter (\<lambda>m. \<not> skipped (fst m)) ms')))"
proof -
  have a: "concat (map snd ms) = take (pos st) s \<and>
      map lexeme (tokens st) = map snd (filter (\<lambda>m. \<not> skipped (fst m)) ms)"
    if "reached s ms st" for ms st
    using steps_consumed [OF advances_lex_body that] reached_tokens [OF that] by simp
  have b: "concat (map snd ms) = take (pos st) s \<and>
      map lexeme_AL (tokens st) = map snd (filter (\<lambda>m. \<not> skipped (fst m)) ms)"
    if "reached_AL s ms st" for ms st
    using steps_consumed [OF advances_lex_body_AL that] reached_AL_tokens [OF that] by simp
  have c: "\<exists>ms' st'. reached s ms' st' \<and> concat (map snd ms') = s \<and>
         butlast toks = tokens st' \<and>
         map lexeme (butlast toks) = map snd (filter (\<lambda>m. \<not> skipped (fst m)) ms')"
    if "lex s = Some (Inr toks)"
  proof -
    from lex_Inr_run [OF that] obtain ms' st' where r: "reached s ms' st'"
      and p: "pos st' = length s" and t: "butlast toks = tokens st'"
      by auto
    from a [OF r] p t have "concat (map snd ms') = s"
      and "map lexeme (butlast toks) = map snd (filter (\<lambda>m. \<not> skipped (fst m)) ms')"
      by simp_all
    with r t show ?thesis by blast
  qed
  have d: "\<exists>ms' st'. reached_AL s ms' st' \<and> concat (map snd ms') = s \<and>
         butlast toks_AL = tokens st' \<and>
         map lexeme_AL (butlast toks_AL) = map snd (filter (\<lambda>m. \<not> skipped (fst m)) ms')"
    if "lex_AL s = Some (Inr toks_AL)"
  proof -
    from lex_AL_Inr_run [OF that] obtain ms' st' where r: "reached_AL s ms' st'"
      and p: "pos st' = length s" and t: "butlast toks_AL = tokens st'"
      by auto
    from b [OF r] p t have "concat (map snd ms') = s"
      and "map lexeme_AL (butlast toks_AL) = map snd (filter (\<lambda>m. \<not> skipped (fst m)) ms')"
      by simp_all
    with r t show ?thesis by blast
  qed
  from a b c d show ?thesis by blast
qed

text \<open>
  The witness of C1, on the source text \<^verbatim>\<open>x;\<close>: after the first iteration the one
  lexeme matched is the prefix of length 1, and each lexer's successful run has matched
  lexemes that concatenate to \<^verbatim>\<open>x;\<close>.
\<close>

theorem matched_lexemes_reconstruct_source_witness:
  "concat (map snd [(''ID'', ''x'')]) =
     take (pos \<lparr>tokens = [\<lparr>token = ''ID'', cadena = ''IDENTIFICADOR'', lexeme = ''x'', line = 1, col = 1\<rparr>],
                pos = 1, cur_line = 1, cur_col = 2\<rparr>) ''x;'' \<and>
   concat (map snd [(''ID'', ''x'')]) =
     take (pos \<lparr>tokens = [\<lparr>type_AL = ''ID'', lexeme_AL = ''x'', line_AL = 1, col_AL = 1\<rparr>],
                pos = 1, cur_line = 1, cur_col = 2\<rparr>) ''x;'' \<and>
   (\<exists>ms' st'. reached ''x;'' ms' st' \<and> concat (map snd ms') = ''x;'' \<and>
      [\<lparr>token = ''ID'', cadena = ''IDENTIFICADOR'', lexeme = ''x'', line = 1, col = 1\<rparr>,
       \<lparr>token = ''SEMI'', cadena = ''PUNTO_Y_COMA'', lexeme = '';'', line = 1, col = 2\<rparr>] =
      tokens st') \<and>
   (\<exists>ms' st'. reached_AL ''x;'' ms' st' \<and> concat (map snd ms') = ''x;'' \<and>
      [\<lparr>type_AL = ''ID'', lexeme_AL = ''x'', line_AL = 1, col_AL = 1\<rparr>,
       \<lparr>type_AL = ''SEMI'', lexeme_AL = '';'', line_AL = 1, col_AL = 2\<rparr>] = tokens st')"
proof -
  note t = matched_lexemes_reconstruct_source [where s = "''x;''"]
  from t [THEN conjunct1, THEN mp, OF reached_x_semi]
  have 1: "concat (map snd [(''ID'', ''x'')]) =
     take (pos \<lparr>tokens = [\<lparr>token = ''ID'', cadena = ''IDENTIFICADOR'', lexeme = ''x'', line = 1, col = 1\<rparr>],
                pos = 1, cur_line = 1, cur_col = 2\<rparr>) ''x;''"
    by (rule conjunct1)
  from t [THEN conjunct2, THEN conjunct1, THEN mp, OF reached_AL_x_semi]
  have 2: "concat (map snd [(''ID'', ''x'')]) =
     take (pos \<lparr>tokens = [\<lparr>type_AL = ''ID'', lexeme_AL = ''x'', line_AL = 1, col_AL = 1\<rparr>],
                pos = 1, cur_line = 1, cur_col = 2\<rparr>) ''x;''"
    by (rule conjunct1)
  from t [THEN conjunct2, THEN conjunct2, THEN conjunct1, THEN mp, OF lex_x_semi]
  have 3: "\<exists>ms' st'. reached ''x;'' ms' st' \<and> concat (map snd ms') = ''x;'' \<and>
      [\<lparr>token = ''ID'', cadena = ''IDENTIFICADOR'', lexeme = ''x'', line = 1, col = 1\<rparr>,
       \<lparr>token = ''SEMI'', cadena = ''PUNTO_Y_COMA'', lexeme = '';'', line = 1, col = 2\<rparr>] =
      tokens st'"
    by auto
  from t [THEN conjunct2, THEN conjunct2, THEN conjunct2, THEN mp, OF lex_AL_x_semi]
  have 4: "\<exists>ms' st'. reached_AL ''x;'' ms' st' \<and> concat (map snd ms') = ''x;'' \<and>
      [\<lparr>type_AL = ''ID'', lexeme_AL = ''x'', line_AL = 1, col_AL = 1\<rparr>,
       \<lparr>type_AL = ''SEMI'', lexeme_AL = '';'', line_AL = 1, col_AL = 2\<rparr>] = tokens st'"
    by auto
  from 1 2 3 4 show ?thesis by blast
qed

section \<open>The end-of-input token\<close>

text \<open>
  The end-of-input token. In both lexers, when \<^verbatim>\<open>lex\<close> succeeds the loop has reached a
  state at the end of the text, and the result is the tokens of that state followed by one
  more token: its category is EOF, its lexeme is empty, and its line and column are the
  cursor's in that state. No token before it has an empty lexeme or the category EOF, so
  the end-of-input token is there exactly once.
\<close>

lemma eof_token_appended:
  "(lex s = Some (Inr toks) \<longrightarrow>
      (\<exists>ms st. reached s ms st \<and> pos st = length s \<and>
         toks = tokens st @
           [\<lparr>token = ''EOF'', cadena = ''EOF'', lexeme = [], line = cur_line st, col = cur_col st\<rparr>] \<and>
         (\<forall>t \<in> set (tokens st). lexeme t \<noteq> [] \<and> token t \<noteq> ''EOF''))) \<and>
   (lex_AL s = Some (Inr toks_AL) \<longrightarrow>
      (\<exists>ms st. reached_AL s ms st \<and> pos st = length s \<and>
         toks_AL = tokens st @
           [\<lparr>type_AL = ''EOF'', lexeme_AL = [], line_AL = cur_line st, col_AL = cur_col st\<rparr>] \<and>
         (\<forall>t \<in> set (tokens st). lexeme_AL t \<noteq> [] \<and> type_AL t \<noteq> ''EOF'')))"
proof (intro conjI impI)
  assume "lex s = Some (Inr toks)"
  from lex_Inr_run [OF this] obtain ms st where r: "reached s ms st" and p: "pos st = length s"
    and t: "toks = tokens st @
      [\<lparr>token = ''EOF'', cadena = ''EOF'', lexeme = [], line = cur_line st, col = cur_col st\<rparr>]"
    by (auto simp: cadena_EOF)
  from reached_tokens [OF r] have "\<forall>t \<in> set (tokens st). lexeme t \<noteq> [] \<and> token t \<noteq> ''EOF''"
    by (rule conjunct2)
  with r p t show "\<exists>ms st. reached s ms st \<and> pos st = length s \<and>
         toks = tokens st @
           [\<lparr>token = ''EOF'', cadena = ''EOF'', lexeme = [], line = cur_line st, col = cur_col st\<rparr>] \<and>
         (\<forall>t \<in> set (tokens st). lexeme t \<noteq> [] \<and> token t \<noteq> ''EOF'')"
    by blast
next
  assume "lex_AL s = Some (Inr toks_AL)"
  from lex_AL_Inr_run [OF this] obtain ms st where r: "reached_AL s ms st"
    and p: "pos st = length s"
    and t: "toks_AL = tokens st @
      [\<lparr>type_AL = ''EOF'', lexeme_AL = [], line_AL = cur_line st, col_AL = cur_col st\<rparr>]"
    by auto
  from reached_AL_tokens [OF r]
  have "\<forall>t \<in> set (tokens st). lexeme_AL t \<noteq> [] \<and> type_AL t \<noteq> ''EOF''"
    by (rule conjunct2)
  with r p t show "\<exists>ms st. reached_AL s ms st \<and> pos st = length s \<and>
         toks_AL = tokens st @
           [\<lparr>type_AL = ''EOF'', lexeme_AL = [], line_AL = cur_line st, col_AL = cur_col st\<rparr>] \<and>
         (\<forall>t \<in> set (tokens st). lexeme_AL t \<noteq> [] \<and> type_AL t \<noteq> ''EOF'')"
    by blast
qed

section \<open>Greedy repetitions and the rules that can start at a character\<close>

lemma rmatch_Cons_first:
  assumes "\<not> nullable r" and "p \<in> set (rmatch r (c # cs))"
  shows "c \<in> first r"
proof -
  from assms have ne: "p \<noteq> []" by (auto dest: rmatch_nullable)
  from assms(2) have "prefix p (c # cs)" by (rule rmatch_prefix)
  with ne have "hd p = c" by (cases p) auto
  with rmatch_first [OF assms(2) ne] show ?thesis by simp
qed

lemma find_match_starters:
  assumes "no_empty_match rules" and "find_match rules s k = Some (tok_name, lx)"
  shows "k < length s \<and> tok_name \<in> set (starters rules (s ! k))"
proof -
  from assms(2) obtain tok_re where r: "(tok_name, tok_re) \<in> set rules"
    and m: "lx \<in> set (rmatch tok_re (drop k s))"
    by (blast dest: find_match_SomeD re_match_SomeD)
  from assms(1) r have n: "\<not> nullable tok_re" by (auto simp: no_empty_match_def list_all_iff)
  with m have "lx \<noteq> []" by (auto dest: rmatch_nullable)
  with m have "drop k s \<noteq> []" by (auto dest: rmatch_prefix)
  then have k: "k < length s" by simp
  then have "drop k s = s ! k # drop (Suc k) s" by (simp add: Cons_nth_drop_Suc)
  with n m have "s ! k \<in> first tok_re" by (auto dest: rmatch_Cons_first)
  with r k show ?thesis by (force simp: starters_def)
qed

lemma star_iter_Cls:
  "length s \<le> n \<Longrightarrow>
   star_iter (rmatch (Cls C)) n s =
     map (\<lambda>k. take k s) (rev [0..<Suc (length (takeWhile (\<lambda>c. c \<in> C) s))])"
proof (induction s arbitrary: n)
  case Nil
  then show ?case by (cases n) simp_all
next
  case (Cons c cs)
  then obtain m where n: "n = Suc m" and m: "length cs \<le> m" by (cases n) auto
  show ?case
  proof (cases "c \<in> C")
    case False
    then show ?thesis by (simp add: n)
  next
    case True
    let ?L = "length (takeWhile (\<lambda>c. c \<in> C) cs)"
    have "[0..<Suc (Suc ?L)] = 0 # [Suc 0..<Suc (Suc ?L)]" by (rule upt_conv_Cons) simp
    also have "[Suc 0..<Suc (Suc ?L)] = map Suc [0..<Suc ?L]" by (rule map_Suc_upt [symmetric])
    finally have "map (\<lambda>k. take k (c # cs)) (rev [0..<Suc (Suc ?L)]) =
        map ((#) c) (map (\<lambda>k. take k cs) (rev [0..<Suc ?L])) @ [[]]"
      by (simp add: rev_map comp_def del: upt_Suc)
    with True Cons.IH [OF m] show ?thesis by (simp add: n comp_def del: upt_Suc)
  qed
qed

lemma rmatch_Star_Cls:
  "rmatch (Star (Cls C)) s =
     map (\<lambda>k. take k s) (rev [0..<Suc (length (takeWhile (\<lambda>c. c \<in> C) s))])"
  by (simp add: star_iter_Cls del: upt_Suc)

lemma rmatch_Plus_Cls:
  "rmatch (Plus (Cls C)) s =
     (case s of [] \<Rightarrow> []
      | c # cs \<Rightarrow> if c \<in> C
          then map (\<lambda>k. take (Suc k) s) (rev [0..<Suc (length (takeWhile (\<lambda>c. c \<in> C) cs))])
          else [])"
  by (cases s) (simp_all add: star_iter_Cls comp_def del: upt_Suc star_iter.simps)

section \<open>What the STRING and ID patterns match\<close>

lemma concat_map_Nil: "(\<And>x. x \<in> set xs \<Longrightarrow> f x = []) \<Longrightarrow> concat (map f xs) = []"
  by (induction xs) auto

lemma rev_upt_Suc: "rev [0..<Suc n] = n # rev [0..<n]"
  by simp

lemma takeWhile_nth_holds:
  assumes "k < length (takeWhile P xs)"
  shows "k < length xs \<and> P (xs ! k)"
proof -
  from assms have "takeWhile P xs ! k \<in> set (takeWhile P xs)" by (rule nth_mem)
  then have "P (takeWhile P xs ! k)" by (rule set_takeWhileD [THEN conjunct2])
  moreover from assms have "takeWhile P xs ! k = xs ! k" by (rule takeWhile_nth)
  moreover have "length (takeWhile P xs) \<le> length xs" by (rule length_takeWhile_le)
  ultimately show ?thesis using assms by simp
qed

lemma rmatch_Seq_Lit:
  "rmatch (Seq (Lit c) r) s =
     (case s of [] \<Rightarrow> [] | x # xs \<Rightarrow> if x = c then map ((#) c) (rmatch r xs) else [])"
  by (cases s) (simp_all add: comp_def)

lemma rmatch_Seq_Cls:
  "rmatch (Seq (Cls C) r) s =
     (case s of [] \<Rightarrow> [] | x # xs \<Rightarrow> if x \<in> C then map ((#) x) (rmatch r xs) else [])"
  by (cases s) (simp_all add: comp_def)

lemma map_append_Lit:
  "map ((@) p) (rmatch (Lit q) d) =
     (case d of [] \<Rightarrow> [] | x # _ \<Rightarrow> if x = q then [p @ [q]] else [])"
  by (cases d) simp_all

text \<open>A greedy class repetition followed by a character outside the class.\<close>

lemma rmatch_Star_Cls_Lit:
  assumes q: "q \<notin> C"
  shows "rmatch (Seq (Star (Cls C)) (Lit q)) s =
     (case dropWhile (\<lambda>c. c \<in> C) s of
        [] \<Rightarrow> []
      | x # _ \<Rightarrow> if x = q then [takeWhile (\<lambda>c. c \<in> C) s @ [q]] else [])"
proof -
  let ?P = "\<lambda>c. c \<in> C"
  let ?L = "length (takeWhile ?P s)"
  let ?g = "\<lambda>k. map ((@) (take k s)) (rmatch (Lit q) (drop (length (take k s)) s))"
  have le: "?L \<le> length s" by (rule length_takeWhile_le)
  have "rmatch (Seq (Star (Cls C)) (Lit q)) s = concat (map ?g (rev [0..<Suc ?L]))"
    by (simp add: rmatch_Star_Cls comp_def del: upt_Suc rmatch.simps(6))
  also have "\<dots> = ?g ?L @ concat (map ?g (rev [0..<?L]))"
    by (simp only: rev_upt_Suc list.map concat.simps)
  also have "concat (map ?g (rev [0..<?L])) = []"
  proof (rule concat_map_Nil)
    fix k assume "k \<in> set (rev [0..<?L])"
    then have "k < ?L" by simp
    then have k: "k < length s" and "s ! k \<in> C" by (auto dest: takeWhile_nth_holds)
    with q have "s ! k \<noteq> q" by auto
    moreover from k have "drop k s = s ! k # drop (Suc k) s" by (simp add: Cons_nth_drop_Suc)
    ultimately show "?g k = []" using k by simp
  qed
  also have "?g ?L @ [] =
     (case dropWhile ?P s of
        [] \<Rightarrow> []
      | x # _ \<Rightarrow> if x = q then [takeWhile ?P s @ [q]] else [])"
  proof -
    have d: "drop ?L s = dropWhile ?P s" by (rule dropWhile_eq_drop [symmetric])
    have tk: "take ?L s = takeWhile ?P s" by (rule takeWhile_eq_take [symmetric])
    from le have "length (take ?L s) = ?L" by simp
    then have "?g ?L = map ((@) (takeWhile ?P s)) (rmatch (Lit q) (dropWhile ?P s))"
      by (simp only: d tk)
    then show ?thesis by (simp only: append_Nil2 map_append_Lit)
  qed
  finally show ?thesis .
qed

lemma rmatch_Star_Cls_Lit_Some:
  assumes "q \<notin> C" and "dropWhile (\<lambda>c. c \<in> C) s = q # rest"
  shows "rmatch (Seq (Star (Cls C)) (Lit q)) s = [takeWhile (\<lambda>c. c \<in> C) s @ [q]]"
  by (simp only: rmatch_Star_Cls_Lit [OF assms(1)] assms(2) list.case simp_thms if_True)

lemma rmatch_Star_Cls_Lit_None:
  assumes "q \<notin> C" and "\<And>rest. dropWhile (\<lambda>c. c \<in> C) s \<noteq> q # rest"
  shows "rmatch (Seq (Star (Cls C)) (Lit q)) s = []"
proof (cases "dropWhile (\<lambda>c. c \<in> C) s")
  case Nil
  show ?thesis by (simp only: rmatch_Star_Cls_Lit [OF assms(1)] Nil list.case)
next
  case (Cons x xs)
  with assms(2) have "x \<noteq> q" by blast
  then show ?thesis by (simp only: rmatch_Star_Cls_Lit [OF assms(1)] Cons list.case simp_thms if_False)
qed

lemma takeWhile_holds: "c \<in> set (takeWhile P xs) \<Longrightarrow> P c"
  by (rule set_takeWhileD [THEN conjunct2])

lemma takeWhile_all_append: "(\<And>c. c \<in> set xs \<Longrightarrow> P c) \<Longrightarrow> \<not> P y \<Longrightarrow>
    takeWhile P (xs @ y # ys) = xs \<and> dropWhile P (xs @ y # ys) = y # ys"
  by (induction xs) simp_all

text \<open>
  What the STRING rule matches: a double quote, characters other than the double quote
  and the line feed, and a double quote.
\<close>

lemma re_match_STRING_iff:
  "re_match STRING_rx s k = Some lx \<longleftrightarrow>
     (\<exists>body rest. drop k s = DQUOTE # body @ DQUOTE # rest \<and>
        DQUOTE \<notin> set body \<and> LF \<notin> set body \<and> lx = DQUOTE # body @ [DQUOTE])"
proof -
  let ?C = "- {DQUOTE, LF}"
  let ?P = "\<lambda>c. c \<in> ?C"
  let ?R = "Seq (Star (Cls ?C)) (Lit DQUOTE)"
  have q: "DQUOTE \<notin> ?C" by simp
  have m: "rmatch STRING_rx d =
      (case d of [] \<Rightarrow> [] | x # xs \<Rightarrow> if x = DQUOTE then map ((#) DQUOTE) (rmatch ?R xs) else [])"
    for d
    unfolding STRING_rx_def by (rule rmatch_Seq_Lit)
  show ?thesis
  proof
    assume a: "re_match STRING_rx s k = Some lx"
    then have ne: "rmatch STRING_rx (drop k s) \<noteq> []" and lx: "lx = hd (rmatch STRING_rx (drop k s))"
      by (auto simp: re_match_def split: list.splits)
    from ne obtain cs where d: "drop k s = DQUOTE # cs" and r: "rmatch ?R cs \<noteq> []"
      by (cases "drop k s") (auto simp: m split: if_splits)
    from r obtain rest where dw: "dropWhile ?P cs = DQUOTE # rest"
      using rmatch_Star_Cls_Lit_None [OF q, of cs] by blast
    let ?body = "takeWhile ?P cs"
    from rmatch_Star_Cls_Lit_Some [OF q dw] lx d have "lx = DQUOTE # ?body @ [DQUOTE]"
      by (simp add: m del: rmatch.simps)
    moreover have cs: "?body @ DQUOTE # rest = cs"
      using takeWhile_dropWhile_id [of ?P cs] by (simp only: dw)
    from d have "drop k s = DQUOTE # ?body @ DQUOTE # rest" by (simp only: cs)
    moreover have "DQUOTE \<notin> set ?body \<and> LF \<notin> set ?body"
      using takeWhile_holds [of _ ?P cs] by blast
    ultimately show "\<exists>body rest. drop k s = DQUOTE # body @ DQUOTE # rest \<and>
        DQUOTE \<notin> set body \<and> LF \<notin> set body \<and> lx = DQUOTE # body @ [DQUOTE]"
      by blast
  next
    assume "\<exists>body rest. drop k s = DQUOTE # body @ DQUOTE # rest \<and>
        DQUOTE \<notin> set body \<and> LF \<notin> set body \<and> lx = DQUOTE # body @ [DQUOTE]"
    then obtain body rest where d: "drop k s = DQUOTE # body @ DQUOTE # rest"
      and b: "DQUOTE \<notin> set body" "LF \<notin> set body" and lx: "lx = DQUOTE # body @ [DQUOTE]"
      by blast
    from b have all: "\<And>c. c \<in> set body \<Longrightarrow> ?P c" by blast
    have nq: "\<not> ?P DQUOTE" by blast
    note tw = takeWhile_all_append [of body ?P DQUOTE rest, OF all nq]
    from rmatch_Star_Cls_Lit_Some [OF q tw [THEN conjunct2]]
    have "rmatch ?R (body @ DQUOTE # rest) = [body @ [DQUOTE]]"
      by (simp only: tw [THEN conjunct1])
    with d lx show "re_match STRING_rx s k = Some lx"
      by (simp add: re_match_def m del: rmatch.simps)
  qed
qed

text \<open>What the ID rule matches.\<close>

lemma re_match_ID:
  "re_match ID_rx s k =
     (case drop k s of
        [] \<Rightarrow> None
      | c # cs \<Rightarrow>
          if c \<in> letter
          then Some (c # takeWhile (\<lambda>x. x \<in> letter \<union> digit \<union> {CHR ''_''}) cs)
          else None)"
  unfolding re_match_def ID_rx_def rmatch_Seq_Cls rmatch_Star_Cls rev_upt_Suc
  by (simp add: takeWhile_eq_take [symmetric] split: list.splits del: upt_Suc)

text \<open>A greedy class repetition, at least once, before a text that the class does not start.\<close>

lemma rmatch_Seq_Plus_Cls_hd:
  assumes w: "w \<noteq> []" "set w \<subseteq> C" and t: "t = [] \<or> hd t \<notin> C" and r: "rmatch r t = y # ys"
  shows "\<exists>zs. rmatch (Seq (Plus (Cls C)) r) (w @ t) = (w @ y) # zs"
proof -
  from w(1) obtain c cs where wc: "w = c # cs" by (cases w) auto
  with w(2) have c: "c \<in> C" and cs: "set cs \<subseteq> C" by auto
  from t have "takeWhile (\<lambda>c. c \<in> C) t = []" by (cases t) auto
  with cs have tw: "takeWhile (\<lambda>c. c \<in> C) (cs @ t) = cs"
    by (subst takeWhile_append2) auto
  have "rmatch (Plus (Cls C)) (w @ t) =
      map (\<lambda>k. take (Suc k) (w @ t)) (rev [0..<Suc (length cs)])"
    using c tw by (simp add: rmatch_Plus_Cls wc del: upt_Suc rmatch.simps(7))
  also have "\<dots> = w # map (\<lambda>k. take (Suc k) (w @ t)) (rev [0..<length cs])"
    by (simp add: wc)
  finally have "rmatch (Plus (Cls C)) (w @ t) =
      w # map (\<lambda>k. take (Suc k) (w @ t)) (rev [0..<length cs])" .
  then show ?thesis using r by (simp del: rmatch.simps(7))
qed

section \<open>The number rule\<close>



section \<open>The bare equality sign\<close>

lemma distinct_names: "distinct (map fst token_specification)"
  by (simp add: token_specification_def)

lemma distinct_names_AL: "distinct (map fst token_specification_AL)"
  by (simp add: token_specification_AL_def)










section \<open>The cursor of \<^verbatim>\<open>src/lexer.py\<close>\<close>

lemma re_match_newline_Cons:
  "re_match newline_rx (c # cs) 0 =
     (if c = CR then (if prefix [LF] cs then Some [CR, LF] else Some [CR])
      else if c = LF then Some [LF] else None)"
  by (cases cs) (simp_all add: re_match_def newline_rx_def)

lemma line_breaks_none: "CR \<notin> set lx \<Longrightarrow> LF \<notin> set lx \<Longrightarrow> line_breaks lx = 0"
  by (induction lx rule: line_breaks.induct) auto

lemma cal_append:
  "chars_after_last_break (a @ b) =
     (if CR \<in> set b \<or> LF \<in> set b then chars_after_last_break b
      else chars_after_last_break a + length b)"
proof (cases "CR \<in> set b \<or> LF \<in> set b")
  case True
  then obtain x where "x \<in> set (rev b)" and "\<not> (x \<noteq> CR \<and> x \<noteq> LF)" by auto
  then have "takeWhile (\<lambda>c. c \<noteq> CR \<and> c \<noteq> LF) (rev b @ rev a) =
      takeWhile (\<lambda>c. c \<noteq> CR \<and> c \<noteq> LF) (rev b)"
    by (rule takeWhile_append1)
  with True show ?thesis by (simp add: chars_after_last_break_def)
next
  case False
  then have "\<And>x. x \<in> set (rev b) \<Longrightarrow> x \<noteq> CR \<and> x \<noteq> LF" by auto
  then have "takeWhile (\<lambda>c. c \<noteq> CR \<and> c \<noteq> LF) (rev b @ rev a) =
      rev b @ takeWhile (\<lambda>c. c \<noteq> CR \<and> c \<noteq> LF) (rev a)"
    by (rule takeWhile_append2)
  with False show ?thesis by (simp add: chars_after_last_break_def)
qed

lemma cal_Cons:
  "chars_after_last_break (c # cs) =
     (if CR \<in> set cs \<or> LF \<in> set cs then chars_after_last_break cs
      else if c = CR \<or> c = LF then length cs else Suc (length cs))"
  using cal_append [of "[c]" cs] by (simp add: chars_after_last_break_def)

lemma re_split_Nil: "re_split newline_rx cur [] = [cur]"
  by (simp add: re_split.simps)

lemma re_split_Cons:
  "re_split newline_rx cur (c # cs) =
     (if c = CR then
        (if prefix [LF] cs then cur # re_split newline_rx [] (tl cs)
         else cur # re_split newline_rx [] cs)
      else if c = LF then cur # re_split newline_rx [] cs
      else re_split newline_rx (cur @ [c]) cs)"
  by (subst re_split.simps) (auto simp: re_match_newline_Cons prefix_def)

lemma re_split_not_Nil: "re_split newline_rx cur lx \<noteq> []"
  by (induction lx arbitrary: cur) (simp_all add: re_split_Nil re_split_Cons)

text \<open>
  \<^verbatim>\<open>re.split\<close> on the line-break pattern: one piece more than there are line breaks, and
  the last piece is what follows the last break.
\<close>

lemma re_split_newline:
  "length (re_split newline_rx cur lx) = Suc (line_breaks lx) \<and>
   length (last (re_split newline_rx cur lx)) =
     (if CR \<in> set lx \<or> LF \<in> set lx then chars_after_last_break lx
      else length cur + length lx)"
proof (induction lx arbitrary: cur rule: line_breaks.induct)
  case 1
  show ?case by (simp add: re_split_Nil)
next
  case (2 c)
  show ?case by (simp add: re_split_Nil re_split_Cons chars_after_last_break_def)
next
  case (3 c d ds)
  consider (crlf) "c = CR" "d = LF" | (cr) "c = CR" "d \<noteq> LF" | (lf) "c = LF"
    | (other) "c \<noteq> CR" "c \<noteq> LF"
    by blast
  then show ?case
  proof cases
    case crlf
    have s: "re_split newline_rx cur (CR # LF # ds) = cur # re_split newline_rx [] ds"
      by (simp add: re_split_Cons)
    from crlf have "c = CR \<and> d = LF" by simp
    from 3(1) [OF this, of "[]"] show ?thesis
      unfolding crlf by (simp add: s re_split_not_Nil cal_Cons)
  next
    case cr
    then have s: "re_split newline_rx cur (CR # d # ds) = cur # re_split newline_rx [] (d # ds)"
      by (simp add: re_split_Cons)
    from cr have "\<not> (c = CR \<and> d = LF)" and "c = CR \<or> c = LF" by simp_all
    from 3(2) [OF this, of "[]"] cr(2) show ?thesis
      unfolding cr(1) by (simp add: s re_split_not_Nil cal_Cons [of CR])
  next
    case lf
    have s: "re_split newline_rx cur (LF # d # ds) = cur # re_split newline_rx [] (d # ds)"
      by (simp add: re_split_Cons)
    from lf have "\<not> (c = CR \<and> d = LF)" and "c = CR \<or> c = LF" by simp_all
    from 3(2) [OF this, of "[]"] show ?thesis
      unfolding lf by (simp add: s re_split_not_Nil cal_Cons [of LF])
  next
    case other
    then have s: "re_split newline_rx cur (c # d # ds) = re_split newline_rx (cur @ [c]) (d # ds)"
      by (simp add: re_split_Cons)
    from other have "\<not> (c = CR \<and> d = LF)" and "\<not> (c = CR \<or> c = LF)" by simp_all
    from 3(3) [OF this, of "cur @ [c]"] other show ?thesis
      by (simp add: s cal_Cons [of c])
  qed
qed

lemma advance_position_eq:
  "advance_position l c lx =
     (l + int (line_breaks lx),
      if CR \<in> set lx \<or> LF \<in> set lx then 1 + int (chars_after_last_break lx)
      else c + int (length lx))"
proof (cases "CR \<in> set lx \<or> LF \<in> set lx")
  case True
  then have "lx \<noteq> []" by auto
  with True show ?thesis
    using re_split_newline [of "[]" lx]
    by (auto simp: advance_position_def Let_def)
next
  case False
  then show ?thesis by (auto simp: advance_position_def line_breaks_none)
qed

text \<open>Line breaks add up over a concatenation that does not cut a \<^verbatim>\<open>\r\n\<close> in two.\<close>

lemma line_breaks_append:
  "\<not> (a \<noteq> [] \<and> last a = CR \<and> prefix [LF] b) \<Longrightarrow>
   line_breaks (a @ b) = line_breaks a + line_breaks b"
proof (induction a rule: line_breaks.induct)
  case 1
  show ?case by simp
next
  case (2 c)
  then show ?case by (cases b) auto
next
  case (3 c d ds)
  show ?case
  proof (cases "c = CR \<and> d = LF")
    case True
    show ?thesis
    proof (cases ds)
      case Nil
      with True show ?thesis by simp
    next
      case (Cons e es)
      with 3(4) have "\<not> (ds \<noteq> [] \<and> last ds = CR \<and> prefix [LF] b)" by simp
      with True 3(1) show ?thesis by simp
    qed
  next
    case False
    from 3(4) have n: "\<not> (d # ds \<noteq> [] \<and> last (d # ds) = CR \<and> prefix [LF] b)" by simp
    from False 3(2) [OF _ _ n] 3(3) [OF _ _ n] show ?thesis by auto
  qed
qed

lemma re_match_drop: "re_match r s k = re_match r (drop k s) 0"
  by (simp add: re_match_def)

lemma re_match_newline_CR:
  assumes "re_match newline_rx s k = Some lx" and "last lx = CR"
  shows "\<not> prefix (lx @ [LF]) (drop k s)"
proof (cases "drop k s")
  case Nil
  with assms(1) show ?thesis by (simp add: re_match_def newline_rx_def)
next
  case (Cons c cs)
  from assms(1) have m: "re_match newline_rx (c # cs) 0 = Some lx"
    by (simp add: re_match_drop [of _ s k] Cons)
  show ?thesis
  proof (cases "c = CR")
    case True
    show ?thesis
    proof (cases "prefix [LF] cs")
      case p: True
      with m True have "lx = [CR, LF]" by (simp add: re_match_newline_Cons)
      with assms(2) show ?thesis by simp
    next
      case p: False
      with m True have "lx = [CR]" by (simp add: re_match_newline_Cons)
      with p True Cons show ?thesis by simp
    qed
  next
    case False
    with m have "lx = [LF]" by (simp add: re_match_newline_Cons split: if_splits)
    with assms(2) show ?thesis by simp
  qed
qed

lemma re_match_STRING_last:
  assumes "re_match STRING_rx s k = Some lx"
  shows "last lx = DQUOTE"
proof -
  from assms obtain body where "lx = DQUOTE # body @ [DQUOTE]"
    unfolding re_match_STRING_iff by blast
  then show ?thesis by simp
qed

text \<open>Only the NEWLINE and STRING rules have a carriage return in their patterns.\<close>

lemma rules_with_CR:
  "list_all (\<lambda>(tok_name, tok_re). CR \<in> chars tok_re \<longrightarrow> tok_re = newline_rx \<or> tok_re = STRING_rx)
     token_specification"
  unfolding token_specification_def by (simp add: rx_defs digit_def letter_def)

lemma rules_with_CR_AL:
  "list_all (\<lambda>(tok_name, tok_re). CR \<in> chars tok_re \<longrightarrow> tok_re = newline_rx \<or> tok_re = STRING_rx)
     token_specification_AL"
  unfolding token_specification_AL_def by (simp add: rx_defs digit_def letter_def)

text \<open>No lexeme ends between the two characters of a \<^verbatim>\<open>\r\n\<close>.\<close>

lemma find_match_CR:
  assumes t: "list_all (\<lambda>(tok_name, tok_re). CR \<in> chars tok_re \<longrightarrow>
        tok_re = newline_rx \<or> tok_re = STRING_rx) rules"
    and f: "find_match rules s k = Some (tok_name, lx)" and ne: "lx \<noteq> []"
    and l: "last lx = CR"
  shows "\<not> prefix (lx @ [LF]) (drop k s)"
proof -
  from find_match_SomeD [OF f] obtain tok_re where
    m: "(tok_name, tok_re) \<in> set rules" and r: "re_match tok_re s k = Some lx" by blast
  from r have "lx \<in> set (rmatch tok_re (drop k s))" by (rule re_match_SomeD)
  then have "set lx \<subseteq> chars tok_re" by (rule rmatch_chars)
  moreover from ne l have "CR \<in> set lx" using last_in_set [of lx] by simp
  ultimately have "CR \<in> chars tok_re" by blast
  with t m have "tok_re = newline_rx \<or> tok_re = STRING_rx"
    by (auto simp: list_all_iff)
  then show ?thesis
  proof
    assume "tok_re = newline_rx"
    with r l show ?thesis by (simp add: re_match_newline_CR)
  next
    assume "tok_re = STRING_rx"
    with r have "last lx = DQUOTE" by (simp add: re_match_STRING_last)
    with l show ?thesis by simp
  qed
qed

text \<open>
  The cursor of \<^verbatim>\<open>src/lexer.py\<close> is the position of the offset: at the head of every
  iteration, \<^verbatim>\<open>line\<close> and \<^verbatim>\<open>col\<close> are the 1-based line and column of the character at
  \<^verbatim>\<open>pos\<close>, counted over the consumed text.
\<close>

lemma position_step:
  assumes f: "find_match token_specification s k = Some (tok_name, lx)"
    and c: "(l, c) = position s k"
    and n: "\<not> (take k s \<noteq> [] \<and> last (take k s) = CR \<and> prefix [LF] (drop k s))"
  shows "advance_position l c lx = position s (k + length lx)"
proof -
  from f have p: "prefix lx (drop k s)" by (rule find_match_prefix)
  from find_match_nonempty [OF no_empty_match_token_specification f] have ne: "lx \<noteq> []" .
  from p have tk: "take (k + length lx) s = take k s @ lx" by (rule prefix_drop_take(1))
  have "prefix [LF] (drop k s)" if "prefix [LF] lx"
    using that p by (rule prefix_order.trans)
  with n have "\<not> (take k s \<noteq> [] \<and> last (take k s) = CR \<and> prefix [LF] lx)" by blast
  then have lb: "line_breaks (take k s @ lx) = line_breaks (take k s) + line_breaks lx"
    by (rule line_breaks_append)
  from c have l: "l = 1 + int (line_breaks (take k s))"
    and cc: "c = 1 + int (chars_after_last_break (take k s))"
    by (simp_all add: position_def)
  show ?thesis
    unfolding advance_position_eq position_def tk lb cal_append l cc by simp
qed

lemma cursor_invariant:
  assumes "reached s ms st"
  shows "(cur_line st, cur_col st) = position s (pos st) \<and>
     \<not> (take (pos st) s \<noteq> [] \<and> last (take (pos st) s) = CR \<and> prefix [LF] (drop (pos st) s))"
  using assms
proof (induction rule: steps.induct)
  case steps_init
  show ?case by (simp add: init_state_def position_def chars_after_last_break_def)
next
  case (steps_step ms st tok_name lx st')
  let ?k = "pos st"
  from steps_step.IH have c: "(cur_line st, cur_col st) = position s ?k"
    and n: "\<not> (take ?k s \<noteq> [] \<and> last (take ?k s) = CR \<and> prefix [LF] (drop ?k s))"
    by simp_all
  note f = \<open>find_match token_specification s ?k = Some (tok_name, lx)\<close>
  from f have p: "prefix lx (drop ?k s)" by (rule find_match_prefix)
  from find_match_nonempty [OF no_empty_match_token_specification f] have ne: "lx \<noteq> []" .
  from p have tk: "take (?k + length lx) s = take ?k s @ lx" by (rule prefix_drop_take(1))
  from p obtain rest where d: "drop ?k s = lx @ rest" by (auto simp: prefix_def)
  have dr: "drop (?k + length lx) s = rest"
    using d by (simp add: add.commute [of ?k] drop_drop [symmetric] del: drop_drop)
  from \<open>lex_body s st = Inr st'\<close> have st': "pos st' = ?k + length lx"
    "cur_line st' = fst (advance_position (cur_line st) (cur_col st) lx)"
    "cur_col st' = snd (advance_position (cur_line st) (cur_col st) lx)"
    by (auto simp: lex_body_Some [OF f])
  from position_step [OF f c n]
  have 1: "(cur_line st', cur_col st') = position s (pos st')" by (simp add: st')
  have 2: "\<not> (take (pos st') s \<noteq> [] \<and> last (take (pos st') s) = CR \<and>
      prefix [LF] (drop (pos st') s))"
  proof
    assume a: "take (pos st') s \<noteq> [] \<and> last (take (pos st') s) = CR \<and>
      prefix [LF] (drop (pos st') s)"
    with ne have l: "last lx = CR" by (simp add: st' tk)
    from a have "prefix [LF] rest" by (simp add: st' dr)
    then have "prefix (lx @ [LF]) (drop ?k s)" by (simp add: d)
    with find_match_CR [OF rules_with_CR f ne l] show False by simp
  qed
  from 1 2 show ?case by simp
qed

lemma starts_snoc:
  "starts k (ms @ [(tok_name, lx)]) =
     starts k ms @ (if skipped tok_name then [] else [k + length (concat (map snd ms))])"
  by (induction k ms rule: starts.induct) (simp_all add: add.assoc)

text \<open>
  \<^verbatim>\<open>src/lexer.py\<close> stamps every token with the position of the first character of its
  lexeme.
\<close>

lemma tokens_stamped_with_start:
  assumes "reached s ms st"
  shows "map (\<lambda>t. (line t, col t)) (tokens st) = map (position s) (starts 0 ms)"
  using assms
proof (induction rule: steps.induct)
  case steps_init
  show ?case by (simp add: init_state_def)
next
  case (steps_step ms st tok_name lx st')
  note f = \<open>find_match token_specification s (pos st) = Some (tok_name, lx)\<close>
  from steps_consumed [OF advances_lex_body steps_step.hyps(1)]
  have k: "length (concat (map snd ms)) = pos st" by simp
  from cursor_invariant [OF steps_step.hyps(1)]
  have c: "position s (pos st) = (cur_line st, cur_col st)" by simp
  from \<open>lex_body s st = Inr st'\<close>
  have t: "tokens st' = tokens st @ emit tok_name lx (cur_line st) (cur_col st)"
    by (auto simp: lex_body_Some [OF f])
  show ?case
  proof (cases "skipped tok_name")
    case True
    with steps_step.IH show ?thesis by (simp add: t emit_skipped starts_snoc)
  next
    case False
    from emit_token [OF False, of lx "cur_line st" "cur_col st"] obtain tk where
      "emit tok_name lx (cur_line st) (cur_col st) = [tk]" "line tk = cur_line st"
      "col tk = cur_col st"
      by blast
    with False steps_step.IH show ?thesis by (simp add: t starts_snoc k c)
  qed
qed

text \<open>
  The positions \<^verbatim>\<open>src/lexer.py\<close> reports: its cursor is the position of the offset; the
  tokens of a successful result carry the positions of the first characters of their
  lexemes, and the end-of-input token the position of the end of the text; a lexical error
  carries the position of the offset where no rule matches.
\<close>

lemma lexer_py_positions:
  "(reached s ms st \<longrightarrow> (cur_line st, cur_col st) = position s (pos st)) \<and>
   (lex s = Some (Inr toks) \<longrightarrow>
      (\<exists>ms st. reached s ms st \<and> concat (map snd ms) = s \<and>
         map (\<lambda>t. (line t, col t)) (butlast toks) = map (position s) (starts 0 ms)) \<and>
      (line (last toks), col (last toks)) = position s (length s)) \<and>
   (lex s = Some (Inl e) \<longrightarrow>
      (\<exists>ms st. reached s ms st \<and> pos st < length s \<and>
         find_match token_specification s (pos st) = None \<and>
         e = LexerError (s ! pos st) (fst (position s (pos st))) (snd (position s (pos st)))))"
proof (intro conjI impI)
  assume "reached s ms st"
  then show "(cur_line st, cur_col st) = position s (pos st)"
    using cursor_invariant by blast
next
  assume "lex s = Some (Inr toks)"
  from lex_Inr_run [OF this] obtain ms st where r: "reached s ms st" and p: "pos st = length s"
    and t: "toks = tokens st @
      [\<lparr>token = ''EOF'', cadena = dict_get DESCRIPTION_MAP ''EOF'' ''EOF'', lexeme = [],
        line = cur_line st, col = cur_col st\<rparr>]"
    by blast
  from steps_consumed [OF advances_lex_body r] p have "concat (map snd ms) = s" by simp
  moreover from t have "butlast toks = tokens st" by simp
  with tokens_stamped_with_start [OF r]
  have "map (\<lambda>t. (line t, col t)) (butlast toks) = map (position s) (starts 0 ms)" by simp
  ultimately show "\<exists>ms st. reached s ms st \<and> concat (map snd ms) = s \<and>
         map (\<lambda>t. (line t, col t)) (butlast toks) = map (position s) (starts 0 ms)"
    using r by blast
  from cursor_invariant [OF r] p t
  show "(line (last toks), col (last toks)) = position s (length s)" by simp
next
  assume "lex s = Some (Inl e)"
  from lex_Inl_run [OF this] obtain ms st where r: "reached s ms st" and p: "pos st < length s"
    and f: "find_match token_specification s (pos st) = None"
    and e: "e = LexerError (s ! pos st) (cur_line st) (cur_col st)"
    by blast
  from cursor_invariant [OF r] have "cur_line st = fst (position s (pos st))"
    and "cur_col st = snd (position s (pos st))"
    by (simp_all add: prod_eq_iff)
  with e have "e = LexerError (s ! pos st) (fst (position s (pos st))) (snd (position s (pos st)))"
    by simp
  with r p f show "\<exists>ms st. reached s ms st \<and> pos st < length s \<and>
         find_match token_specification s (pos st) = None \<and>
         e = LexerError (s ! pos st) (fst (position s (pos st))) (snd (position s (pos st)))"
    by blast
qed

section \<open>The cursor of \<^verbatim>\<open>src/Analizador_Lexico.py\<close> after a line break inside a lexeme\<close>

lemmas position_eval = position_def chars_after_last_break_def

text \<open>
  C2. The cursor advance and the stamp of a token, at the string literal \<^verbatim>\<open>"a\rb"\<close>
  (five characters, a carriage return inside the quotes). The lexeme has one line break
  and two characters after it, and it starts at line 1, column 1.
  \<^verbatim>\<open>_advance_position\<close> of \<^verbatim>\<open>src/lexer.py\<close> moves the cursor to line 2, column 3, and that
  lexer stamps the STRING token with line 1, column 1. The loop of
  \<^verbatim>\<open>src/Analizador_Lexico.py\<close> sets the column to 1 after a lexeme with a line break,
  whatever follows the break, and stamps the token after the update with
  \<^verbatim>\<open>col - len(lexeme)\<close>: its cursor goes to line 2, column 1, and its STRING token is
  stamped line 2, column -4.
\<close>

theorem Analizador_stamps_string_after_update:
  "lex_AL [DQUOTE, CHR ''a'', CR, CHR ''b'', DQUOTE] = Some (Inr
     [\<lparr>type_AL = ''STRING'', lexeme_AL = [DQUOTE, CHR ''a'', CR, CHR ''b'', DQUOTE],
       line_AL = 2, col_AL = - 4\<rparr>,
      \<lparr>type_AL = ''EOF'', lexeme_AL = [], line_AL = 2, col_AL = 1\<rparr>]) \<and>
   advance_AL 1 1 [DQUOTE, CHR ''a'', CR, CHR ''b'', DQUOTE] = (2, 1) \<and>
   line_breaks [DQUOTE, CHR ''a'', CR, CHR ''b'', DQUOTE] = 1 \<and>
   chars_after_last_break [DQUOTE, CHR ''a'', CR, CHR ''b'', DQUOTE] = 2 \<and>
   position [DQUOTE, CHR ''a'', CR, CHR ''b'', DQUOTE] 0 = (1, 1) \<and>
   advance_position 1 1 [DQUOTE, CHR ''a'', CR, CHR ''b'', DQUOTE] = (2, 3) \<and>
   lex [DQUOTE, CHR ''a'', CR, CHR ''b'', DQUOTE] = Some (Inr
     [\<lparr>token = ''STRING'', cadena = ''CADENA'', lexeme = [DQUOTE, CHR ''a'', CR, CHR ''b'', DQUOTE],
       line = 1, col = 1\<rparr>,
      \<lparr>token = ''EOF'', cadena = ''EOF'', lexeme = [], line = 2, col = 3\<rparr>])"
proof -
  have "lex_AL [DQUOTE, CHR ''a'', CR, CHR ''b'', DQUOTE] = Some (Inr
     [\<lparr>type_AL = ''STRING'', lexeme_AL = [DQUOTE, CHR ''a'', CR, CHR ''b'', DQUOTE],
       line_AL = 2, col_AL = - 4\<rparr>,
      \<lparr>type_AL = ''EOF'', lexeme_AL = [], line_AL = 2, col_AL = 1\<rparr>])"
    by (simp add: lex_AL_eval)
  moreover have "advance_AL 1 1 [DQUOTE, CHR ''a'', CR, CHR ''b'', DQUOTE] = (2, 1)"
    by (simp add: advance_AL_def re_findall.simps re_match_def newline_rx_def)
  moreover have "line_breaks [DQUOTE, CHR ''a'', CR, CHR ''b'', DQUOTE] = 1" by simp
  moreover have "chars_after_last_break [DQUOTE, CHR ''a'', CR, CHR ''b'', DQUOTE] = 2"
    by (simp add: position_eval)
  moreover have "position [DQUOTE, CHR ''a'', CR, CHR ''b'', DQUOTE] 0 = (1, 1)"
    by (simp add: position_eval)
  moreover have "advance_position 1 1 [DQUOTE, CHR ''a'', CR, CHR ''b'', DQUOTE] = (2, 3)"
    by (simp add: advance_position_def re_split.simps re_match_def newline_rx_def)
  moreover have "lex [DQUOTE, CHR ''a'', CR, CHR ''b'', DQUOTE] = Some (Inr
     [\<lparr>token = ''STRING'', cadena = ''CADENA'', lexeme = [DQUOTE, CHR ''a'', CR, CHR ''b'', DQUOTE],
       line = 1, col = 1\<rparr>,
      \<lparr>token = ''EOF'', cadena = ''EOF'', lexeme = [], line = 2, col = 3\<rparr>])"
    by (simp add: lex_eval)
  ultimately show ?thesis by (intro conjI)
qed

text \<open>
  C3. The position of a lexical error, at the source text \<^verbatim>\<open>"a\rb"@\<close>: no rule matches
  at offset 5, the \<^verbatim>\<open>@\<close>, which is the third character of line 2. \<^verbatim>\<open>src/lexer.py\<close>
  raises the error with line 2, column 3; \<^verbatim>\<open>src/Analizador_Lexico.py\<close>, whose cursor
  lost the two characters after the carriage return inside the string literal, raises it
  with line 2, column 1.
\<close>

theorem Analizador_error_after_string:
  "lex_AL [DQUOTE, CHR ''a'', CR, CHR ''b'', DQUOTE, CHR ''@''] =
     Some (Inl (LexerError CHR ''@'' 2 1)) \<and>
   position [DQUOTE, CHR ''a'', CR, CHR ''b'', DQUOTE, CHR ''@''] 5 = (2, 3) \<and>
   lex [DQUOTE, CHR ''a'', CR, CHR ''b'', DQUOTE, CHR ''@''] =
     Some (Inl (LexerError CHR ''@'' 2 3))"
proof -
  have "lex_AL [DQUOTE, CHR ''a'', CR, CHR ''b'', DQUOTE, CHR ''@''] =
     Some (Inl (LexerError CHR ''@'' 2 1))"
    by (simp add: lex_AL_eval)
  moreover have "position [DQUOTE, CHR ''a'', CR, CHR ''b'', DQUOTE, CHR ''@''] 5 = (2, 3)"
    by (simp add: position_eval)
  moreover have "lex [DQUOTE, CHR ''a'', CR, CHR ''b'', DQUOTE, CHR ''@''] =
     Some (Inl (LexerError CHR ''@'' 2 3))"
    by (simp add: lex_eval)
  ultimately show ?thesis by (intro conjI)
qed

text \<open>
  C8. The stamp of the end-of-input token, at the source text \<^verbatim>\<open>"\rok";\<close>: the text
  ends at line 2, column 5. \<^verbatim>\<open>src/lexer.py\<close> stamps the EOF token with line 2, column 5;
  \<^verbatim>\<open>src/Analizador_Lexico.py\<close>, whose cursor lost the three characters after the
  carriage return inside the string literal, stamps it with line 2, column 2.
\<close>

theorem Analizador_eof_after_string:
  "lex_AL [DQUOTE, CR, CHR ''o'', CHR ''k'', DQUOTE, CHR '';''] = Some (Inr
     [\<lparr>type_AL = ''STRING'', lexeme_AL = [DQUOTE, CR, CHR ''o'', CHR ''k'', DQUOTE],
       line_AL = 2, col_AL = - 4\<rparr>,
      \<lparr>type_AL = ''SEMI'', lexeme_AL = '';'', line_AL = 2, col_AL = 1\<rparr>,
      \<lparr>type_AL = ''EOF'', lexeme_AL = [], line_AL = 2, col_AL = 2\<rparr>]) \<and>
   position [DQUOTE, CR, CHR ''o'', CHR ''k'', DQUOTE, CHR '';''] 6 = (2, 5) \<and>
   lex [DQUOTE, CR, CHR ''o'', CHR ''k'', DQUOTE, CHR '';''] = Some (Inr
     [\<lparr>token = ''STRING'', cadena = ''CADENA'', lexeme = [DQUOTE, CR, CHR ''o'', CHR ''k'', DQUOTE],
       line = 1, col = 1\<rparr>,
      \<lparr>token = ''SEMI'', cadena = ''PUNTO_Y_COMA'', lexeme = '';'', line = 2, col = 4\<rparr>,
      \<lparr>token = ''EOF'', cadena = ''EOF'', lexeme = [], line = 2, col = 5\<rparr>])"
proof -
  have "lex_AL [DQUOTE, CR, CHR ''o'', CHR ''k'', DQUOTE, CHR '';''] = Some (Inr
     [\<lparr>type_AL = ''STRING'', lexeme_AL = [DQUOTE, CR, CHR ''o'', CHR ''k'', DQUOTE],
       line_AL = 2, col_AL = - 4\<rparr>,
      \<lparr>type_AL = ''SEMI'', lexeme_AL = '';'', line_AL = 2, col_AL = 1\<rparr>,
      \<lparr>type_AL = ''EOF'', lexeme_AL = [], line_AL = 2, col_AL = 2\<rparr>])"
    by (simp add: lex_AL_eval)
  moreover have "position [DQUOTE, CR, CHR ''o'', CHR ''k'', DQUOTE, CHR '';''] 6 = (2, 5)"
    by (simp add: position_eval)
  moreover have "lex [DQUOTE, CR, CHR ''o'', CHR ''k'', DQUOTE, CHR '';''] = Some (Inr
     [\<lparr>token = ''STRING'', cadena = ''CADENA'', lexeme = [DQUOTE, CR, CHR ''o'', CHR ''k'', DQUOTE],
       line = 1, col = 1\<rparr>,
      \<lparr>token = ''SEMI'', cadena = ''PUNTO_Y_COMA'', lexeme = '';'', line = 2, col = 4\<rparr>,
      \<lparr>token = ''EOF'', cadena = ''EOF'', lexeme = [], line = 2, col = 5\<rparr>])"
    by (simp add: lex_eval)
  ultimately show ?thesis by (intro conjI)
qed

section \<open>String literals\<close>













section \<open>Identifiers and reserved words\<close>

text \<open>
  The characters that rules other than the ID rule start with: none of them is a letter.
\<close>

lemma letter_not_digit: "c \<in> letter \<Longrightarrow> c \<notin> digit"
  by (auto simp: letter_def digit_def less_eq_char_def)

lemma letter_not_special:
  assumes "c \<in> letter"
  shows "c \<notin> set ([CHR '' '', TAB, CR, LF, DQUOTE] @ ''/:=!<>&|.+-*%()[];,_'')"
proof
  assume a: "c \<in> set ([CHR '' '', TAB, CR, LF, DQUOTE] @ ''/:=!<>&|.+-*%()[];,_'')"
  have "list_all (\<lambda>x. x \<notin> letter) ([CHR '' '', TAB, CR, LF, DQUOTE] @ ''/:=!<>&|.+-*%()[];,_'')"
    by (simp add: letter_def)
  with a have "c \<notin> letter" unfolding list_all_iff by blast
  with assms show False by simp
qed

lemma starters_letter:
  assumes "c \<in> letter"
  shows "starters token_specification c = [''ID'']"
    and "starters token_specification_AL c = [''ID'']"
  using assms letter_not_special [OF assms] letter_not_digit [OF assms]
  by (simp_all add: starters_def token_specification_def token_specification_AL_def
      WHITESPACE_rx_def newline_rx_def COMMENT_rx_def STRING_rx_def NUM_rx_def lit2_def ID_rx_def)

lemma rule_ID:
  "(''ID'', tok_re) \<in> set token_specification \<Longrightarrow> tok_re = ID_rx"
  "(''ID'', tok_re) \<in> set token_specification_AL \<Longrightarrow> tok_re = ID_rx"
  by (simp_all add: token_specification_def token_specification_AL_def)

lemma ID_in_rules:
  "(''ID'', ID_rx) \<in> set token_specification"
  "(''ID'', ID_rx) \<in> set token_specification_AL"
  by (simp_all add: token_specification_def token_specification_AL_def)

text \<open>
  At a letter the ID rule is the rule that matches, and it matches the longest run of
  letters, digits and underscores.
\<close>

lemma find_match_at_letter:
  assumes d: "drop k s = c # cs" and c: "c \<in> letter"
  shows "find_match token_specification s k =
      Some (''ID'', c # takeWhile (\<lambda>x. x \<in> letter \<union> digit \<union> {CHR ''_''}) cs)"
    and "find_match token_specification_AL s k =
      Some (''ID'', c # takeWhile (\<lambda>x. x \<in> letter \<union> digit \<union> {CHR ''_''}) cs)"
proof -
  let ?lx = "c # takeWhile (\<lambda>x. x \<in> letter \<union> digit \<union> {CHR ''_''}) cs"
  from d c have m: "re_match ID_rx s k = Some ?lx" by (simp add: re_match_ID)
  from d have k: "k < length s" by (cases "k < length s") auto
  with d have sk: "s ! k = c" by (simp add: Cons_nth_drop_Suc [symmetric])
  have g: "find_match rules s k = Some (''ID'', ?lx)"
    if ne: "no_empty_match rules" and st: "starters rules c = [''ID'']"
      and r: "\<And>tok_re. (''ID'', tok_re) \<in> set rules \<Longrightarrow> tok_re = ID_rx"
      and i: "(''ID'', ID_rx) \<in> set rules"
    for rules
  proof (cases "find_match rules s k")
    case None
    with i have "re_match ID_rx s k = None" unfolding find_match_None_iff by blast
    with m show ?thesis by simp
  next
    case (Some a)
    obtain tok_name lx where a: "a = (tok_name, lx)" by (cases a)
    from Some a have f: "find_match rules s k = Some (tok_name, lx)" by simp
    from find_match_starters [OF ne f] have n: "tok_name = ''ID''" by (simp add: sk st)
    from find_match_SomeD [OF f] obtain tok_re where
      "(tok_name, tok_re) \<in> set rules" and e: "re_match tok_re s k = Some lx" by blast
    with n have "tok_re = ID_rx" by (simp add: r)
    with e m have "lx = ?lx" by simp
    with f n show ?thesis by simp
  qed
  show "find_match token_specification s k = Some (''ID'', ?lx)"
    using no_empty_match_token_specification starters_letter(1) [OF c] rule_ID(1) ID_in_rules(1)
    by (rule g)
  show "find_match token_specification_AL s k = Some (''ID'', ?lx)"
    using no_empty_match_token_specification_AL starters_letter(2) [OF c] rule_ID(2)
      ID_in_rules(2)
    by (rule g)
qed

text \<open>What the iteration appends for a match of the ID rule.\<close>

lemma emit_ID:
  "emit ''ID'' lx l c =
     [\<lparr>token = (case KEYWORDS (lower lx) of None \<Rightarrow> ''ID'' | Some kw \<Rightarrow> kw),
       cadena = (case KEYWORDS (lower lx) of None \<Rightarrow> ''IDENTIFICADOR''
                 | Some kw \<Rightarrow> ''PALABRA_RESERVADA''),
       lexeme = lx, line = l, col = c\<rparr>]"
  "emit_AL ''ID'' lx l c =
     [\<lparr>type_AL = (case KEYWORDS (lower lx) of None \<Rightarrow> ''ID'' | Some kw \<Rightarrow> kw),
       lexeme_AL = lx, line_AL = l, col_AL = c - int (length lx)\<rparr>]"
  by (simp_all add: emit_def emit_AL_def skipped_def dict_get_def DESCRIPTION_MAP_def
      split: option.splits)

lemma identifier_no_break:
  assumes "c \<in> letter" and "set cs \<subseteq> letter \<union> digit \<union> {CHR ''_''}"
  shows "CR \<notin> set (c # cs) \<and> LF \<notin> set (c # cs)"
proof -
  have "CR \<notin> letter \<union> digit \<union> {CHR ''_''}" and "LF \<notin> letter \<union> digit \<union> {CHR ''_''}"
    by (simp_all add: letter_def digit_def)
  with assms show ?thesis by auto
qed

lemma advance_AL_no_break:
  "CR \<notin> set lx \<Longrightarrow> LF \<notin> set lx \<Longrightarrow> advance_AL l c lx = (l, c + int (length lx))"
  by (simp add: advance_AL_def)

lemma advance_position_no_break:
  "CR \<notin> set lx \<Longrightarrow> LF \<notin> set lx \<Longrightarrow> advance_position l c lx = (l, c + int (length lx))"
  by (simp add: advance_position_eq line_breaks_none)

text \<open>A source text that is one identifier-shaped word.\<close>

lemma lex_identifier:
  assumes c: "c \<in> letter" and cs: "set cs \<subseteq> letter \<union> digit \<union> {CHR ''_''}"
  shows "lex (c # cs) = Some (Inr
     [\<lparr>token = (case KEYWORDS (lower (c # cs)) of None \<Rightarrow> ''ID'' | Some kw \<Rightarrow> kw),
       cadena = (case KEYWORDS (lower (c # cs)) of None \<Rightarrow> ''IDENTIFICADOR''
                 | Some kw \<Rightarrow> ''PALABRA_RESERVADA''),
       lexeme = c # cs, line = 1, col = 1\<rparr>,
      \<lparr>token = ''EOF'', cadena = ''EOF'', lexeme = [], line = 1, col = 2 + int (length cs)\<rparr>])"
    and "lex_AL (c # cs) = Some (Inr
     [\<lparr>type_AL = (case KEYWORDS (lower (c # cs)) of None \<Rightarrow> ''ID'' | Some kw \<Rightarrow> kw),
       lexeme_AL = c # cs, line_AL = 1, col_AL = 1\<rparr>,
      \<lparr>type_AL = ''EOF'', lexeme_AL = [], line_AL = 1, col_AL = 2 + int (length cs)\<rparr>])"
proof -
  let ?w = "c # cs"
  from cs have "\<forall>x \<in> set cs. x \<in> letter \<union> digit \<union> {CHR ''_''}" by blast
  then have tw: "takeWhile (\<lambda>x. x \<in> letter \<union> digit \<union> {CHR ''_''}) cs = cs"
    by (simp only: takeWhile_eq_all_conv)
  have d: "drop 0 ?w = c # cs" by simp
  note nb = identifier_no_break [OF c cs]
  from find_match_at_letter(1) [OF d c]
  have f: "find_match token_specification ?w (pos (init_state :: Token lex_state)) = Some (''ID'', ?w)"
    by (simp only: tw init_state_def lex_state.simps)
  from nb have a: "advance_position 1 1 ?w = (1, 1 + int (length ?w))"
    by (intro advance_position_no_break) simp_all
  have b: "lex_body ?w init_state = Inr
      \<lparr>tokens = emit ''ID'' ?w 1 1, pos = length ?w, cur_line = 1, cur_col = 1 + int (length ?w)\<rparr>"
    unfolding lex_body_Some [OF f] by (simp add: init_state_def a del: emit_def)
  have "lex ?w = lex_loop ?w init_state" by (simp add: lex_def)
  also have "\<dots> = lex_loop ?w
      \<lparr>tokens = emit ''ID'' ?w 1 1, pos = length ?w, cur_line = 1, cur_col = 1 + int (length ?w)\<rparr>"
    by (rule lex_loop_step [OF _ b]) (simp add: init_state_def)
  also have "\<dots> = Some (Inr (emit ''ID'' ?w 1 1 @
      [\<lparr>token = ''EOF'', cadena = ''EOF'', lexeme = [], line = 1, col = 1 + int (length ?w)\<rparr>]))"
    by (subst lex_loop_end) (simp_all add: cadena_EOF)
  finally show "lex (c # cs) = Some (Inr
     [\<lparr>token = (case KEYWORDS (lower (c # cs)) of None \<Rightarrow> ''ID'' | Some kw \<Rightarrow> kw),
       cadena = (case KEYWORDS (lower (c # cs)) of None \<Rightarrow> ''IDENTIFICADOR''
                 | Some kw \<Rightarrow> ''PALABRA_RESERVADA''),
       lexeme = c # cs, line = 1, col = 1\<rparr>,
      \<lparr>token = ''EOF'', cadena = ''EOF'', lexeme = [], line = 1, col = 2 + int (length cs)\<rparr>])"
    by (simp add: emit_ID)
  from find_match_at_letter(2) [OF d c]
  have f': "find_match token_specification_AL ?w (pos (init_state :: Token_AL lex_state)) =
      Some (''ID'', ?w)"
    by (simp only: tw init_state_def lex_state.simps)
  from nb have a': "advance_AL 1 1 ?w = (1, 1 + int (length ?w))"
    by (intro advance_AL_no_break) simp_all
  have b': "lex_body_AL ?w init_state = Inr
      \<lparr>tokens = emit_AL ''ID'' ?w 1 (1 + int (length ?w)), pos = length ?w, cur_line = 1,
        cur_col = 1 + int (length ?w)\<rparr>"
    unfolding lex_body_AL_Some [OF f'] by (simp add: init_state_def a')
  have "lex_AL ?w = lex_loop_AL ?w init_state" by (simp add: lex_AL_def)
  also have "\<dots> = lex_loop_AL ?w
      \<lparr>tokens = emit_AL ''ID'' ?w 1 (1 + int (length ?w)), pos = length ?w, cur_line = 1,
        cur_col = 1 + int (length ?w)\<rparr>"
    by (rule lex_loop_AL_step [OF _ b']) (simp add: init_state_def)
  also have "\<dots> = Some (Inr (emit_AL ''ID'' ?w 1 (1 + int (length ?w)) @
      [\<lparr>type_AL = ''EOF'', lexeme_AL = [], line_AL = 1, col_AL = 1 + int (length ?w)\<rparr>]))"
    by (subst lex_loop_AL_end) simp_all
  finally show "lex_AL (c # cs) = Some (Inr
     [\<lparr>type_AL = (case KEYWORDS (lower (c # cs)) of None \<Rightarrow> ''ID'' | Some kw \<Rightarrow> kw),
       lexeme_AL = c # cs, line_AL = 1, col_AL = 1\<rparr>,
      \<lparr>type_AL = ''EOF'', lexeme_AL = [], line_AL = 1, col_AL = 2 + int (length cs)\<rparr>])"
    by (simp add: emit_ID)
qed

lemma lower_char_identifier:
  assumes "x \<in> letter \<union> digit \<union> {CHR ''_''}"
  shows "lower_char x = (if x \<in> {CHR ''A''..CHR ''Z''} then char_of (of_char x + (32::nat)) else x)"
  using assms by (auto simp: letter_def digit_def less_eq_char_def lower_char_def Let_def)

text \<open>
  C6. The reserved words are the nineteen words of the keyword table. At every offset
  where the text goes on with a letter, the ID rule matches, in both lexers, the letter
  and the longest run of letters, digits and underscores after it. For every lexeme that
  the ID rule matched, the iteration appends one token: its lexeme is the matched text,
  unchanged, and its category is the category the keyword table gives for the lower-cased
  lexeme, or ID when the table has none. Lower-casing moves the capitals
  \<^verbatim>\<open>A\<close> to \<^verbatim>\<open>Z\<close> to the small letters and leaves the other characters of an identifier as
  they are. So a source text that is one identifier-shaped word yields that token followed
  by the end-of-input token, and \<^verbatim>\<open>PROGRAM\<close> yields the category PROGRAM with the lexeme
  \<^verbatim>\<open>PROGRAM\<close>.
\<close>

theorem keyword_resolution:
  "dom KEYWORDS =
     {''program'', ''type'', ''var'', ''procedure'', ''function'', ''begin'', ''end'',
      ''integer'', ''boolean'', ''string'', ''array'', ''of'', ''if'', ''then'', ''else'',
      ''while'', ''do'', ''true'', ''false''} \<and>
   map KEYWORDS
     [''program'', ''type'', ''var'', ''procedure'', ''function'', ''begin'', ''end'',
      ''integer'', ''boolean'', ''string'', ''array'', ''of'', ''if'', ''then'', ''else'',
      ''while'', ''do'', ''true'', ''false''] =
   map Some
     [''PROGRAM'', ''TYPE'', ''VAR'', ''PROCEDURE'', ''FUNCTION'', ''BEGIN'', ''END'',
      ''INTEGER'', ''BOOLEAN'', ''STRING_T'', ''ARRAY'', ''OF'', ''IF'', ''THEN'', ''ELSE'',
      ''WHILE'', ''DO'', ''TRUE'', ''FALSE''] \<and>
   (x \<in> letter \<union> digit \<union> {CHR ''_''} \<longrightarrow>
      lower_char x = (if x \<in> {CHR ''A''..CHR ''Z''} then char_of (of_char x + (32::nat)) else x)) \<and>
   (drop k s = c # cs \<longrightarrow> c \<in> letter \<longrightarrow>
      find_match token_specification s k =
        Some (''ID'', c # takeWhile (\<lambda>x. x \<in> letter \<union> digit \<union> {CHR ''_''}) cs) \<and>
      find_match token_specification_AL s k =
        Some (''ID'', c # takeWhile (\<lambda>x. x \<in> letter \<union> digit \<union> {CHR ''_''}) cs)) \<and>
   (find_match token_specification s (pos st) = Some (''ID'', lx) \<longrightarrow>
      (\<exists>st'. lex_body s st = Inr st' \<and>
         tokens st' = tokens st @
           [\<lparr>token = (case KEYWORDS (lower lx) of None \<Rightarrow> ''ID'' | Some kw \<Rightarrow> kw),
             cadena = (case KEYWORDS (lower lx) of None \<Rightarrow> ''IDENTIFICADOR''
                       | Some kw \<Rightarrow> ''PALABRA_RESERVADA''),
             lexeme = lx, line = cur_line st, col = cur_col st\<rparr>])) \<and>
   (find_match token_specification_AL s (pos st_AL) = Some (''ID'', lx) \<longrightarrow>
      (\<exists>st' tk. lex_body_AL s st_AL = Inr st' \<and> tokens st' = tokens st_AL @ [tk] \<and>
         type_AL tk = (case KEYWORDS (lower lx) of None \<Rightarrow> ''ID'' | Some kw \<Rightarrow> kw) \<and>
         lexeme_AL tk = lx)) \<and>
   (a \<in> letter \<longrightarrow> set w \<subseteq> letter \<union> digit \<union> {CHR ''_''} \<longrightarrow>
      lex (a # w) = Some (Inr
        [\<lparr>token = (case KEYWORDS (lower (a # w)) of None \<Rightarrow> ''ID'' | Some kw \<Rightarrow> kw),
          cadena = (case KEYWORDS (lower (a # w)) of None \<Rightarrow> ''IDENTIFICADOR''
                    | Some kw \<Rightarrow> ''PALABRA_RESERVADA''),
          lexeme = a # w, line = 1, col = 1\<rparr>,
         \<lparr>token = ''EOF'', cadena = ''EOF'', lexeme = [], line = 1,
          col = 2 + int (length w)\<rparr>]) \<and>
      lex_AL (a # w) = Some (Inr
        [\<lparr>type_AL = (case KEYWORDS (lower (a # w)) of None \<Rightarrow> ''ID'' | Some kw \<Rightarrow> kw),
          lexeme_AL = a # w, line_AL = 1, col_AL = 1\<rparr>,
         \<lparr>type_AL = ''EOF'', lexeme_AL = [], line_AL = 1, col_AL = 2 + int (length w)\<rparr>])) \<and>
   lex ''PROGRAM'' = Some (Inr
     [\<lparr>token = ''PROGRAM'', cadena = ''PALABRA_RESERVADA'', lexeme = ''PROGRAM'', line = 1, col = 1\<rparr>,
      \<lparr>token = ''EOF'', cadena = ''EOF'', lexeme = [], line = 1, col = 8\<rparr>]) \<and>
   lex_AL ''PROGRAM'' = Some (Inr
     [\<lparr>type_AL = ''PROGRAM'', lexeme_AL = ''PROGRAM'', line_AL = 1, col_AL = 1\<rparr>,
      \<lparr>type_AL = ''EOF'', lexeme_AL = [], line_AL = 1, col_AL = 8\<rparr>])"
proof -
  have 1: "dom KEYWORDS =
     {''program'', ''type'', ''var'', ''procedure'', ''function'', ''begin'', ''end'',
      ''integer'', ''boolean'', ''string'', ''array'', ''of'', ''if'', ''then'', ''else'',
      ''while'', ''do'', ''true'', ''false''}"
    by (simp add: KEYWORDS_def dom_map_of_conv_image_fst)
  have 2: "map KEYWORDS
     [''program'', ''type'', ''var'', ''procedure'', ''function'', ''begin'', ''end'',
      ''integer'', ''boolean'', ''string'', ''array'', ''of'', ''if'', ''then'', ''else'',
      ''while'', ''do'', ''true'', ''false''] =
   map Some
     [''PROGRAM'', ''TYPE'', ''VAR'', ''PROCEDURE'', ''FUNCTION'', ''BEGIN'', ''END'',
      ''INTEGER'', ''BOOLEAN'', ''STRING_T'', ''ARRAY'', ''OF'', ''IF'', ''THEN'', ''ELSE'',
      ''WHILE'', ''DO'', ''TRUE'', ''FALSE'']"
    by (simp add: KEYWORDS_def)
  note 3 = lower_char_identifier [of x]
  note 4 = find_match_at_letter [of k s c cs]
  have 5: "\<exists>st'. lex_body s st = Inr st' \<and>
         tokens st' = tokens st @
           [\<lparr>token = (case KEYWORDS (lower lx) of None \<Rightarrow> ''ID'' | Some kw \<Rightarrow> kw),
             cadena = (case KEYWORDS (lower lx) of None \<Rightarrow> ''IDENTIFICADOR''
                       | Some kw \<Rightarrow> ''PALABRA_RESERVADA''),
             lexeme = lx, line = cur_line st, col = cur_col st\<rparr>]"
    if f: "find_match token_specification s (pos st) = Some (''ID'', lx)"
    by (simp add: lex_body_Some [OF f] emit_ID)
  have 6: "\<exists>st' tk. lex_body_AL s st_AL = Inr st' \<and> tokens st' = tokens st_AL @ [tk] \<and>
         type_AL tk = (case KEYWORDS (lower lx) of None \<Rightarrow> ''ID'' | Some kw \<Rightarrow> kw) \<and>
         lexeme_AL tk = lx"
    if f: "find_match token_specification_AL s (pos st_AL) = Some (''ID'', lx)"
    by (simp add: lex_body_AL_Some [OF f] emit_ID)
  note 7 = lex_identifier [of a w]
  have 8: "lex ''PROGRAM'' = Some (Inr
     [\<lparr>token = ''PROGRAM'', cadena = ''PALABRA_RESERVADA'', lexeme = ''PROGRAM'', line = 1, col = 1\<rparr>,
      \<lparr>token = ''EOF'', cadena = ''EOF'', lexeme = [], line = 1, col = 8\<rparr>])"
    by (simp add: lex_eval char_of_eq_iff)
  have 9: "lex_AL ''PROGRAM'' = Some (Inr
     [\<lparr>type_AL = ''PROGRAM'', lexeme_AL = ''PROGRAM'', line_AL = 1, col_AL = 1\<rparr>,
      \<lparr>type_AL = ''EOF'', lexeme_AL = [], line_AL = 1, col_AL = 8\<rparr>])"
    by (simp add: lex_AL_eval char_of_eq_iff)
  show ?thesis
    apply (intro conjI impI)
    subgoal by (rule 1)
    subgoal by (rule 2)
    subgoal by (rule 3)
    subgoal by (rule 4(1))
    subgoal by (rule 4(2))
    subgoal by (rule 5)
    subgoal by (rule 6)
    subgoal by (rule 7(1))
    subgoal by (rule 7(2))
    subgoal by (rule 8)
    subgoal by (rule 9)
    done
qed

text \<open>
  The witness of C6. \<^verbatim>\<open>P\<close> is lower-cased to \<^verbatim>\<open>p\<close>. In the text \<^verbatim>\<open>If x\<close> the ID rule
  matches \<^verbatim>\<open>If\<close> at offset 0, and the first iteration appends the token of category IF
  with the lexeme \<^verbatim>\<open>If\<close>. The text \<^verbatim>\<open>End\<close> yields the category END with the lexeme
  \<^verbatim>\<open>End\<close>, and the text \<^verbatim>\<open>x_1\<close>, which is no reserved word, the category ID.
\<close>

theorem keyword_resolution_witness:
  "lower_char CHR ''P'' = CHR ''p'' \<and>
   find_match token_specification ''If x'' 0 = Some (''ID'', ''If'') \<and>
   find_match token_specification_AL ''If x'' 0 = Some (''ID'', ''If'') \<and>
   (\<exists>st'. lex_body ''If x'' init_state = Inr st' \<and>
      tokens st' =
        [\<lparr>token = ''IF'', cadena = ''PALABRA_RESERVADA'', lexeme = ''If'', line = 1, col = 1\<rparr>]) \<and>
   (\<exists>st' tk. lex_body_AL ''If x'' init_state = Inr st' \<and> tokens st' = [tk] \<and>
      type_AL tk = ''IF'' \<and> lexeme_AL tk = ''If'') \<and>
   lex ''End'' = Some (Inr
     [\<lparr>token = ''END'', cadena = ''PALABRA_RESERVADA'', lexeme = ''End'', line = 1, col = 1\<rparr>,
      \<lparr>token = ''EOF'', cadena = ''EOF'', lexeme = [], line = 1, col = 4\<rparr>]) \<and>
   lex_AL ''End'' = Some (Inr
     [\<lparr>type_AL = ''END'', lexeme_AL = ''End'', line_AL = 1, col_AL = 1\<rparr>,
      \<lparr>type_AL = ''EOF'', lexeme_AL = [], line_AL = 1, col_AL = 4\<rparr>]) \<and>
   lex ''x_1'' = Some (Inr
     [\<lparr>token = ''ID'', cadena = ''IDENTIFICADOR'', lexeme = ''x_1'', line = 1, col = 1\<rparr>,
      \<lparr>token = ''EOF'', cadena = ''EOF'', lexeme = [], line = 1, col = 4\<rparr>]) \<and>
   lex_AL ''x_1'' = Some (Inr
     [\<lparr>type_AL = ''ID'', lexeme_AL = ''x_1'', line_AL = 1, col_AL = 1\<rparr>,
      \<lparr>type_AL = ''EOF'', lexeme_AL = [], line_AL = 1, col_AL = 4\<rparr>])"
proof -
  note t = keyword_resolution [where x = "CHR ''P''" and k = 0 and s = "''If x''"
      and c = "CHR ''I''" and cs = "''f x''" and lx = "''If''"
      and st = "init_state :: Token lex_state" and st_AL = "init_state :: Token_AL lex_state"
      and a = "CHR ''E''" and w = "''nd''"]
  note u = keyword_resolution [where a = "CHR ''x''" and w = "''_1''"]
  have kw: "KEYWORDS (lower ''If'') = Some ''IF''" "KEYWORDS (lower ''End'') = Some ''END''"
    "KEYWORDS (lower ''x_1'') = None"
    by (simp_all add: KEYWORDS_def lower_def lower_char_def char_of_eq_iff)
  have l: "CHR ''P'' \<in> letter \<union> digit \<union> {CHR ''_''}" "CHR ''I'' \<in> letter" "CHR ''E'' \<in> letter"
    "CHR ''x'' \<in> letter" "set ''nd'' \<subseteq> letter \<union> digit \<union> {CHR ''_''}"
    "set ''_1'' \<subseteq> letter \<union> digit \<union> {CHR ''_''}"
    by (simp_all add: letter_def digit_def)
  have d: "drop 0 ''If x'' = CHR ''I'' # ''f x''" by simp
  have tw: "CHR ''I'' # takeWhile (\<lambda>x. x \<in> letter \<union> digit \<union> {CHR ''_''}) ''f x'' = ''If''"
    by (simp add: letter_def digit_def)
  from t l(1) have "lower_char CHR ''P'' =
      (if CHR ''P'' \<in> {CHR ''A''..CHR ''Z''} then char_of (of_char CHR ''P'' + (32::nat)) else CHR ''P'')"
    by blast
  then have 1: "lower_char CHR ''P'' = CHR ''p''" by (simp add: char_of_eq_iff)
  from t d l(2) have "find_match token_specification ''If x'' 0 =
        Some (''ID'', CHR ''I'' # takeWhile (\<lambda>x. x \<in> letter \<union> digit \<union> {CHR ''_''}) ''f x'') \<and>
      find_match token_specification_AL ''If x'' 0 =
        Some (''ID'', CHR ''I'' # takeWhile (\<lambda>x. x \<in> letter \<union> digit \<union> {CHR ''_''}) ''f x'')"
    by blast
  then have 2: "find_match token_specification ''If x'' 0 = Some (''ID'', ''If'')"
    and 3: "find_match token_specification_AL ''If x'' 0 = Some (''ID'', ''If'')"
    by (simp_all only: tw)
  from 2 have f: "find_match token_specification ''If x'' (pos (init_state :: Token lex_state)) =
      Some (''ID'', ''If'')"
    by (simp add: init_state_def)
  from 3 have f': "find_match token_specification_AL ''If x''
      (pos (init_state :: Token_AL lex_state)) = Some (''ID'', ''If'')"
    by (simp add: init_state_def)
  from t f have "\<exists>st'. lex_body ''If x'' init_state = Inr st' \<and>
         tokens st' = tokens (init_state :: Token lex_state) @
           [\<lparr>token = (case KEYWORDS (lower ''If'') of None \<Rightarrow> ''ID'' | Some kw \<Rightarrow> kw),
             cadena = (case KEYWORDS (lower ''If'') of None \<Rightarrow> ''IDENTIFICADOR''
                       | Some kw \<Rightarrow> ''PALABRA_RESERVADA''),
             lexeme = ''If'', line = cur_line (init_state :: Token lex_state),
             col = cur_col (init_state :: Token lex_state)\<rparr>]"
    by blast
  then have 4: "\<exists>st'. lex_body ''If x'' init_state = Inr st' \<and>
      tokens st' =
        [\<lparr>token = ''IF'', cadena = ''PALABRA_RESERVADA'', lexeme = ''If'', line = 1, col = 1\<rparr>]"
    by (simp add: kw init_state_def)
  from t f' have "\<exists>st' tk. lex_body_AL ''If x'' init_state = Inr st' \<and>
      tokens st' = tokens (init_state :: Token_AL lex_state) @ [tk] \<and>
      type_AL tk = (case KEYWORDS (lower ''If'') of None \<Rightarrow> ''ID'' | Some kw \<Rightarrow> kw) \<and>
      lexeme_AL tk = ''If''"
    by blast
  then have 5: "\<exists>st' tk. lex_body_AL ''If x'' init_state = Inr st' \<and> tokens st' = [tk] \<and>
      type_AL tk = ''IF'' \<and> lexeme_AL tk = ''If''"
    by (simp add: kw init_state_def)
  from t l(3) l(5) have "lex ''End'' = Some (Inr
        [\<lparr>token = (case KEYWORDS (lower ''End'') of None \<Rightarrow> ''ID'' | Some kw \<Rightarrow> kw),
          cadena = (case KEYWORDS (lower ''End'') of None \<Rightarrow> ''IDENTIFICADOR''
                    | Some kw \<Rightarrow> ''PALABRA_RESERVADA''),
          lexeme = ''End'', line = 1, col = 1\<rparr>,
         \<lparr>token = ''EOF'', cadena = ''EOF'', lexeme = [], line = 1,
          col = 2 + int (length ''nd'')\<rparr>]) \<and>
      lex_AL ''End'' = Some (Inr
        [\<lparr>type_AL = (case KEYWORDS (lower ''End'') of None \<Rightarrow> ''ID'' | Some kw \<Rightarrow> kw),
          lexeme_AL = ''End'', line_AL = 1, col_AL = 1\<rparr>,
         \<lparr>type_AL = ''EOF'', lexeme_AL = [], line_AL = 1, col_AL = 2 + int (length ''nd'')\<rparr>])"
    by blast
  then have 6: "lex ''End'' = Some (Inr
     [\<lparr>token = ''END'', cadena = ''PALABRA_RESERVADA'', lexeme = ''End'', line = 1, col = 1\<rparr>,
      \<lparr>token = ''EOF'', cadena = ''EOF'', lexeme = [], line = 1, col = 4\<rparr>])"
    and 7: "lex_AL ''End'' = Some (Inr
     [\<lparr>type_AL = ''END'', lexeme_AL = ''End'', line_AL = 1, col_AL = 1\<rparr>,
      \<lparr>type_AL = ''EOF'', lexeme_AL = [], line_AL = 1, col_AL = 4\<rparr>])"
    by (simp_all add: kw)
  from u l(4) l(6) have "lex ''x_1'' = Some (Inr
        [\<lparr>token = (case KEYWORDS (lower ''x_1'') of None \<Rightarrow> ''ID'' | Some kw \<Rightarrow> kw),
          cadena = (case KEYWORDS (lower ''x_1'') of None \<Rightarrow> ''IDENTIFICADOR''
                    | Some kw \<Rightarrow> ''PALABRA_RESERVADA''),
          lexeme = ''x_1'', line = 1, col = 1\<rparr>,
         \<lparr>token = ''EOF'', cadena = ''EOF'', lexeme = [], line = 1,
          col = 2 + int (length ''_1'')\<rparr>]) \<and>
      lex_AL ''x_1'' = Some (Inr
        [\<lparr>type_AL = (case KEYWORDS (lower ''x_1'') of None \<Rightarrow> ''ID'' | Some kw \<Rightarrow> kw),
          lexeme_AL = ''x_1'', line_AL = 1, col_AL = 1\<rparr>,
         \<lparr>type_AL = ''EOF'', lexeme_AL = [], line_AL = 1, col_AL = 2 + int (length ''_1'')\<rparr>])"
    by blast
  then have 8: "lex ''x_1'' = Some (Inr
     [\<lparr>token = ''ID'', cadena = ''IDENTIFICADOR'', lexeme = ''x_1'', line = 1, col = 1\<rparr>,
      \<lparr>token = ''EOF'', cadena = ''EOF'', lexeme = [], line = 1, col = 4\<rparr>])"
    and 9: "lex_AL ''x_1'' = Some (Inr
     [\<lparr>type_AL = ''ID'', lexeme_AL = ''x_1'', line_AL = 1, col_AL = 1\<rparr>,
      \<lparr>type_AL = ''EOF'', lexeme_AL = [], line_AL = 1, col_AL = 4\<rparr>])"
    by (simp_all add: kw)
  from 1 2 3 4 5 6 7 8 9 show ?thesis by (intro conjI)
qed

section \<open>The order of the rules\<close>

lemma prefix_pairs_token_specification:
  "prefix_pairs token_specification =
     [(''ASSIGN'', ''COLON''), (''EQEQ'', ''EQUAL''), (''NEQ'', ''NOT''), (''LE'', ''LT''),
      (''GE'', ''GT''), (''DOTDOT'', ''DOT'')]"
  by (simp add: prefix_pairs_def proper_prefix_rule_def token_specification_def rx_defs)

lemma prefix_pairs_token_specification_AL:
  "prefix_pairs token_specification_AL =
     [(''ASSIGN'', ''COLON''), (''NEQ'', ''NOT''), (''LE'', ''LT''),
      (''GE'', ''GT''), (''DOTDOT'', ''DOT'')]"
  by (simp add: prefix_pairs_def proper_prefix_rule_def token_specification_AL_def rx_defs)

lemma tried_before_token_specification:
  "list_all (\<lambda>(a, b). tried_before token_specification a b)
     [(''ASSIGN'', ''COLON''), (''EQEQ'', ''EQUAL''), (''NEQ'', ''NOT''), (''LE'', ''LT''),
      (''GE'', ''GT''), (''DOTDOT'', ''DOT''), (''COMMENT'', ''DIV'')]"
  by (simp add: tried_before_def token_specification_def)

lemma tried_before_token_specification_AL:
  "list_all (\<lambda>(a, b). tried_before token_specification_AL a b)
     [(''ASSIGN'', ''COLON''), (''NEQ'', ''NOT''), (''LE'', ''LT''),
      (''GE'', ''GT''), (''DOTDOT'', ''DOT''), (''COMMENT'', ''DIV'')]"
  by (simp add: tried_before_def token_specification_AL_def)

text \<open>The first rule of the table whose pattern matches at the offset is the one found.\<close>

lemma find_match_first:
  "find_match rules s k =
     (case dropWhile (\<lambda>(tok_name, tok_re). re_match tok_re s k = None) rules of
        [] \<Rightarrow> None
      | (tok_name, tok_re) # _ \<Rightarrow> map_option (Pair tok_name) (re_match tok_re s k))"
  by (induction rules s k rule: find_match.induct) (auto split: option.splits)

text \<open>What the COMMENT rule matches at two slashes, a word and two slashes.\<close>

lemma re_match_COMMENT:
  assumes w: "w \<noteq> []" "set w \<subseteq> letter \<union> digit"
    and d: "drop k s = ''//'' @ w @ ''//'' @ rest"
  shows "re_match COMMENT_rx s k = Some (''//'' @ w @ ''//'')"
proof -
  let ?r = "Seq (Lit CHR ''/'') (Lit CHR ''/'')"
  let ?t = "''//'' @ rest"
  have h: "?t = [] \<or> hd ?t \<notin> letter \<union> digit" by (simp add: letter_def digit_def)
  have r: "rmatch ?r ?t = ''//'' # []" by simp
  from rmatch_Seq_Plus_Cls_hd [OF w h r] obtain zs where
    e: "rmatch (Seq (Plus (Cls (letter \<union> digit))) ?r) (w @ ?t) = (w @ ''//'') # zs" by blast
  have "rmatch COMMENT_rx (CHR ''/'' # CHR ''/'' # (w @ ?t)) =
      map ((#) CHR ''/'') (map ((#) CHR ''/'')
        (rmatch (Seq (Plus (Cls (letter \<union> digit))) ?r) (w @ ?t)))"
    unfolding COMMENT_rx_def by (simp add: rmatch_Seq_Lit del: rmatch.simps)
  also have "\<dots> = (''//'' @ w @ ''//'') # map ((#) CHR ''/'') (map ((#) CHR ''/'') zs)"
    unfolding e by simp
  finally have "rmatch COMMENT_rx (drop k s) =
      (''//'' @ w @ ''//'') # map ((#) CHR ''/'') (map ((#) CHR ''/'') zs)"
    by (simp add: d del: rmatch.simps)
  then show ?thesis by (simp add: re_match_def del: rmatch.simps)
qed

lemma find_match_COMMENT:
  assumes w: "w \<noteq> []" "set w \<subseteq> letter \<union> digit"
    and d: "drop k s = ''//'' @ w @ ''//'' @ rest"
  shows "find_match token_specification s k = Some (''COMMENT'', ''//'' @ w @ ''//'')"
    and "find_match token_specification_AL s k = Some (''COMMENT'', ''//'' @ w @ ''//'')"
proof -
  have a: "re_match WHITESPACE_rx s k = None"
    by (simp add: re_match_def d WHITESPACE_rx_def rmatch_Plus_Cls del: rmatch.simps)
  have b: "re_match newline_rx s k = None"
    by (simp add: re_match_def d newline_rx_def)
  note c = re_match_COMMENT [OF w d]
  from a b c show "find_match token_specification s k = Some (''COMMENT'', ''//'' @ w @ ''//'')"
    by (simp add: token_specification_def)
  from a b c show "find_match token_specification_AL s k = Some (''COMMENT'', ''//'' @ w @ ''//'')"
    by (simp add: token_specification_AL_def)
qed

lemma comment_no_break:
  assumes "set w \<subseteq> letter \<union> digit"
  shows "CR \<notin> set (''//'' @ w @ ''//'')" and "LF \<notin> set (''//'' @ w @ ''//'')"
proof -
  have "CR \<notin> letter \<union> digit" and "LF \<notin> letter \<union> digit"
    by (simp_all add: letter_def digit_def)
  with assms show "CR \<notin> set (''//'' @ w @ ''//'')" and "LF \<notin> set (''//'' @ w @ ''//'')"
    by auto
qed

lemma lex_body_COMMENT:
  assumes w: "w \<noteq> []" "set w \<subseteq> letter \<union> digit"
    and d: "drop (pos st) s = ''//'' @ w @ ''//'' @ rest"
  shows "lex_body s st = Inr \<lparr>tokens = tokens st, pos = pos st + (length w + 4),
      cur_line = cur_line st, cur_col = cur_col st + (int (length w) + 4)\<rparr>"
proof -
  note f = find_match_COMMENT(1) [OF w d]
  note n = comment_no_break [OF w(2)]
  show ?thesis
    unfolding lex_body_Some [OF f] advance_position_no_break [OF n]
    by (simp add: emit_skipped skipped_def)
qed

lemma lex_body_AL_COMMENT:
  assumes w: "w \<noteq> []" "set w \<subseteq> letter \<union> digit"
    and d: "drop (pos st) s = ''//'' @ w @ ''//'' @ rest"
  shows "lex_body_AL s st = Inr \<lparr>tokens = tokens st, pos = pos st + (length w + 4),
      cur_line = cur_line st, cur_col = cur_col st + (int (length w) + 4)\<rparr>"
proof -
  note f = find_match_COMMENT(2) [OF w d]
  note n = comment_no_break [OF w(2)]
  show ?thesis
    unfolding lex_body_AL_Some [OF f] advance_AL_no_break [OF n]
    by (simp add: emit_AL_skipped skipped_def)
qed

text \<open>A source text that is one comment.\<close>

lemma lex_comment:
  assumes w: "w \<noteq> []" "set w \<subseteq> letter \<union> digit"
  shows "lex (''//'' @ w @ ''//'') = Some (Inr
      [\<lparr>token = ''EOF'', cadena = ''EOF'', lexeme = [], line = 1, col = 5 + int (length w)\<rparr>])"
    and "lex_AL (''//'' @ w @ ''//'') = Some (Inr
      [\<lparr>type_AL = ''EOF'', lexeme_AL = [], line_AL = 1, col_AL = 5 + int (length w)\<rparr>])"
proof -
  let ?s = "''//'' @ w @ ''//''"
  have d: "drop (pos (init_state :: Token lex_state)) ?s = ''//'' @ w @ ''//'' @ []"
    by (simp add: init_state_def)
  have b: "lex_body ?s init_state = Inr \<lparr>tokens = [], pos = length w + 4,
      cur_line = 1, cur_col = 5 + int (length w)\<rparr>"
    unfolding lex_body_COMMENT [OF w d] by (simp add: init_state_def)
  have "lex ?s = lex_loop ?s init_state" by (simp add: lex_def)
  also have "\<dots> = lex_loop ?s \<lparr>tokens = [], pos = length w + 4,
      cur_line = 1, cur_col = 5 + int (length w)\<rparr>"
    by (rule lex_loop_step [OF _ b]) (simp add: init_state_def)
  also have "\<dots> = Some (Inr ([] @
      [\<lparr>token = ''EOF'', cadena = ''EOF'', lexeme = [], line = 1, col = 5 + int (length w)\<rparr>]))"
    by (subst lex_loop_end) (simp_all add: cadena_EOF)
  finally show "lex ?s = Some (Inr
      [\<lparr>token = ''EOF'', cadena = ''EOF'', lexeme = [], line = 1, col = 5 + int (length w)\<rparr>])"
    by simp
  have d': "drop (pos (init_state :: Token_AL lex_state)) ?s = ''//'' @ w @ ''//'' @ []"
    by (simp add: init_state_def)
  have b': "lex_body_AL ?s init_state = Inr \<lparr>tokens = [], pos = length w + 4,
      cur_line = 1, cur_col = 5 + int (length w)\<rparr>"
    unfolding lex_body_AL_COMMENT [OF w d'] by (simp add: init_state_def)
  have "lex_AL ?s = lex_loop_AL ?s init_state" by (simp add: lex_AL_def)
  also have "\<dots> = lex_loop_AL ?s \<lparr>tokens = [], pos = length w + 4,
      cur_line = 1, cur_col = 5 + int (length w)\<rparr>"
    by (rule lex_loop_AL_step [OF _ b']) (simp add: init_state_def)
  also have "\<dots> = Some (Inr ([] @
      [\<lparr>type_AL = ''EOF'', lexeme_AL = [], line_AL = 1, col_AL = 5 + int (length w)\<rparr>]))"
    by (subst lex_loop_AL_end) simp_all
  finally show "lex_AL ?s = Some (Inr
      [\<lparr>type_AL = ''EOF'', lexeme_AL = [], line_AL = 1, col_AL = 5 + int (length w)\<rparr>])"
    by simp
qed

text \<open>
  C7. In both lexers the rule found at an offset is the first rule of the table, in the
  order of the table, whose pattern matches there, and its lexeme is not empty. Every rule
  whose text is a proper prefix of the text of another rule (the single characters
  \<^verbatim>\<open>:\<close>, \<^verbatim>\<open>=\<close>, \<^verbatim>\<open>!\<close>, \<^verbatim>\<open><\<close>, \<^verbatim>\<open>>\<close>, \<^verbatim>\<open>.\<close> against \<^verbatim>\<open>:=\<close>, \<^verbatim>\<open>==\<close>, \<^verbatim>\<open>!=\<close>, \<^verbatim>\<open><=\<close>, \<^verbatim>\<open>>=\<close>,
  \<^verbatim>\<open>..\<close>) comes after that rule in the table, and the COMMENT rule comes before the DIV
  rule. So \<^verbatim>\<open>:=\<close> yields exactly one ASSIGN token; and wherever the text goes on with two
  slashes, one or more letters or digits, and two slashes, the COMMENT rule matches all of
  it and the iteration appends no token: a text that is one such comment yields the
  end-of-input token only, and \<^verbatim>\<open>x//abc123//y\<close> yields the two identifiers around the
  comment.
\<close>

theorem rule_priority:
  "find_match rules s k =
     (case dropWhile (\<lambda>(tok_name, tok_re). re_match tok_re s k = None) rules of
        [] \<Rightarrow> None
      | (tok_name, tok_re) # _ \<Rightarrow> map_option (Pair tok_name) (re_match tok_re s k)) \<and>
   (find_match token_specification s k = Some (tok_name, lx) \<longrightarrow> lx \<noteq> []) \<and>
   (find_match token_specification_AL s k = Some (tok_name, lx) \<longrightarrow> lx \<noteq> []) \<and>
   prefix_pairs token_specification =
     [(''ASSIGN'', ''COLON''), (''EQEQ'', ''EQUAL''), (''NEQ'', ''NOT''), (''LE'', ''LT''),
      (''GE'', ''GT''), (''DOTDOT'', ''DOT'')] \<and>
   list_all (\<lambda>(a, b). tried_before token_specification a b)
     [(''ASSIGN'', ''COLON''), (''EQEQ'', ''EQUAL''), (''NEQ'', ''NOT''), (''LE'', ''LT''),
      (''GE'', ''GT''), (''DOTDOT'', ''DOT''), (''COMMENT'', ''DIV'')] \<and>
   prefix_pairs token_specification_AL =
     [(''ASSIGN'', ''COLON''), (''NEQ'', ''NOT''), (''LE'', ''LT''),
      (''GE'', ''GT''), (''DOTDOT'', ''DOT'')] \<and>
   list_all (\<lambda>(a, b). tried_before token_specification_AL a b)
     [(''ASSIGN'', ''COLON''), (''NEQ'', ''NOT''), (''LE'', ''LT''),
      (''GE'', ''GT''), (''DOTDOT'', ''DOT''), (''COMMENT'', ''DIV'')] \<and>
   lex '':='' = Some (Inr
     [\<lparr>token = ''ASSIGN'', cadena = ''ASIGNACION'', lexeme = '':='', line = 1, col = 1\<rparr>,
      \<lparr>token = ''EOF'', cadena = ''EOF'', lexeme = [], line = 1, col = 3\<rparr>]) \<and>
   lex_AL '':='' = Some (Inr
     [\<lparr>type_AL = ''ASSIGN'', lexeme_AL = '':='', line_AL = 1, col_AL = 1\<rparr>,
      \<lparr>type_AL = ''EOF'', lexeme_AL = [], line_AL = 1, col_AL = 3\<rparr>]) \<and>
   (w \<noteq> [] \<longrightarrow> set w \<subseteq> letter \<union> digit \<longrightarrow>
    drop (pos st) s = ''//'' @ w @ ''//'' @ rest \<longrightarrow>
      find_match token_specification s (pos st) = Some (''COMMENT'', ''//'' @ w @ ''//'') \<and>
      lex_body s st = Inr \<lparr>tokens = tokens st, pos = pos st + (length w + 4),
        cur_line = cur_line st, cur_col = cur_col st + (int (length w) + 4)\<rparr>) \<and>
   (w \<noteq> [] \<longrightarrow> set w \<subseteq> letter \<union> digit \<longrightarrow>
    drop (pos st_AL) s = ''//'' @ w @ ''//'' @ rest \<longrightarrow>
      find_match token_specification_AL s (pos st_AL) = Some (''COMMENT'', ''//'' @ w @ ''//'') \<and>
      lex_body_AL s st_AL = Inr \<lparr>tokens = tokens st_AL, pos = pos st_AL + (length w + 4),
        cur_line = cur_line st_AL, cur_col = cur_col st_AL + (int (length w) + 4)\<rparr>) \<and>
   (w \<noteq> [] \<longrightarrow> set w \<subseteq> letter \<union> digit \<longrightarrow>
      lex (''//'' @ w @ ''//'') = Some (Inr
        [\<lparr>token = ''EOF'', cadena = ''EOF'', lexeme = [], line = 1, col = 5 + int (length w)\<rparr>]) \<and>
      lex_AL (''//'' @ w @ ''//'') = Some (Inr
        [\<lparr>type_AL = ''EOF'', lexeme_AL = [], line_AL = 1, col_AL = 5 + int (length w)\<rparr>])) \<and>
   lex ''x//abc123//y'' = Some (Inr
     [\<lparr>token = ''ID'', cadena = ''IDENTIFICADOR'', lexeme = ''x'', line = 1, col = 1\<rparr>,
      \<lparr>token = ''ID'', cadena = ''IDENTIFICADOR'', lexeme = ''y'', line = 1, col = 12\<rparr>,
      \<lparr>token = ''EOF'', cadena = ''EOF'', lexeme = [], line = 1, col = 13\<rparr>]) \<and>
   lex_AL ''x//abc123//y'' = Some (Inr
     [\<lparr>type_AL = ''ID'', lexeme_AL = ''x'', line_AL = 1, col_AL = 1\<rparr>,
      \<lparr>type_AL = ''ID'', lexeme_AL = ''y'', line_AL = 1, col_AL = 12\<rparr>,
      \<lparr>type_AL = ''EOF'', lexeme_AL = [], line_AL = 1, col_AL = 13\<rparr>])"
proof -
  note 1 = find_match_first [of rules s k]
  note 2 = find_match_nonempty [OF no_empty_match_token_specification, of s k tok_name lx]
  note 3 = find_match_nonempty [OF no_empty_match_token_specification_AL, of s k tok_name lx]
  note 4 = prefix_pairs_token_specification
  note 5 = tried_before_token_specification
  note 6 = prefix_pairs_token_specification_AL
  note 7 = tried_before_token_specification_AL
  have 8: "lex '':='' = Some (Inr
     [\<lparr>token = ''ASSIGN'', cadena = ''ASIGNACION'', lexeme = '':='', line = 1, col = 1\<rparr>,
      \<lparr>token = ''EOF'', cadena = ''EOF'', lexeme = [], line = 1, col = 3\<rparr>])"
    by (simp add: lex_eval)
  have 9: "lex_AL '':='' = Some (Inr
     [\<lparr>type_AL = ''ASSIGN'', lexeme_AL = '':='', line_AL = 1, col_AL = 1\<rparr>,
      \<lparr>type_AL = ''EOF'', lexeme_AL = [], line_AL = 1, col_AL = 3\<rparr>])"
    by (simp add: lex_AL_eval)
  note 10 = find_match_COMMENT(1) [of w "pos st" s rest] lex_body_COMMENT [of w st s rest]
  note 11 = find_match_COMMENT(2) [of w "pos st_AL" s rest] lex_body_AL_COMMENT [of w st_AL s rest]
  note 12 = lex_comment [of w]
  have 13: "lex ''x//abc123//y'' = Some (Inr
     [\<lparr>token = ''ID'', cadena = ''IDENTIFICADOR'', lexeme = ''x'', line = 1, col = 1\<rparr>,
      \<lparr>token = ''ID'', cadena = ''IDENTIFICADOR'', lexeme = ''y'', line = 1, col = 12\<rparr>,
      \<lparr>token = ''EOF'', cadena = ''EOF'', lexeme = [], line = 1, col = 13\<rparr>])"
    by (simp add: lex_eval)
  have 14: "lex_AL ''x//abc123//y'' = Some (Inr
     [\<lparr>type_AL = ''ID'', lexeme_AL = ''x'', line_AL = 1, col_AL = 1\<rparr>,
      \<lparr>type_AL = ''ID'', lexeme_AL = ''y'', line_AL = 1, col_AL = 12\<rparr>,
      \<lparr>type_AL = ''EOF'', lexeme_AL = [], line_AL = 1, col_AL = 13\<rparr>])"
    by (simp add: lex_AL_eval)
  show ?thesis
    apply (intro conjI impI)
    subgoal by (rule 1)
    subgoal by (rule 2)
    subgoal by (rule 3)
    subgoal by (rule 4)
    subgoal by (rule 5)
    subgoal by (rule 6)
    subgoal by (rule 7)
    subgoal by (rule 8)
    subgoal by (rule 9)
    subgoal by (rule 10(1))
    subgoal by (rule 10(2))
    subgoal by (rule 11(1))
    subgoal by (rule 11(2))
    subgoal by (rule 12(1))
    subgoal by (rule 12(2))
    subgoal by (rule 13)
    subgoal by (rule 14)
    done
qed

text \<open>
  The witness of C7, on the text \<^verbatim>\<open>//id//;\<close>: at offset 0 the COMMENT rule is found with
  the lexeme \<^verbatim>\<open>//id//\<close>, which is not empty, and the first iteration appends no token and
  moves the offset to 6; the text \<^verbatim>\<open>//id//\<close> yields the end-of-input token only.
\<close>

theorem rule_priority_witness:
  "''//id//'' \<noteq> [] \<and>
   find_match token_specification ''//id//;'' 0 = Some (''COMMENT'', ''//id//'') \<and>
   find_match token_specification_AL ''//id//;'' 0 = Some (''COMMENT'', ''//id//'') \<and>
   lex_body ''//id//;'' init_state = Inr \<lparr>tokens = [], pos = 6, cur_line = 1, cur_col = 7\<rparr> \<and>
   lex_body_AL ''//id//;'' init_state = Inr \<lparr>tokens = [], pos = 6, cur_line = 1, cur_col = 7\<rparr> \<and>
   lex ''//id//'' = Some (Inr
     [\<lparr>token = ''EOF'', cadena = ''EOF'', lexeme = [], line = 1, col = 7\<rparr>]) \<and>
   lex_AL ''//id//'' = Some (Inr
     [\<lparr>type_AL = ''EOF'', lexeme_AL = [], line_AL = 1, col_AL = 7\<rparr>])"
proof -
  note t = rule_priority [where s = "''//id//;''" and w = "''id''" and rest = "'';''"
      and st = "init_state :: Token lex_state" and st_AL = "init_state :: Token_AL lex_state"
      and k = 0 and tok_name = "''COMMENT''" and lx = "''//id//''"]
  have w: "''id'' \<noteq> []" "set ''id'' \<subseteq> letter \<union> digit" by (simp_all add: letter_def)
  have d: "drop (pos (init_state :: Token lex_state)) ''//id//;'' = ''//'' @ ''id'' @ ''//'' @ '';''"
    "drop (pos (init_state :: Token_AL lex_state)) ''//id//;'' = ''//'' @ ''id'' @ ''//'' @ '';''"
    by (simp_all add: init_state_def)
  from t w d(1) have "find_match token_specification ''//id//;'' (pos (init_state :: Token lex_state)) =
        Some (''COMMENT'', ''//'' @ ''id'' @ ''//'') \<and>
      lex_body ''//id//;'' init_state =
        Inr \<lparr>tokens = tokens (init_state :: Token lex_state),
          pos = pos (init_state :: Token lex_state) + (length ''id'' + 4),
          cur_line = cur_line (init_state :: Token lex_state),
          cur_col = cur_col (init_state :: Token lex_state) + (int (length ''id'') + 4)\<rparr>"
    by blast
  then have 2: "find_match token_specification ''//id//;'' 0 = Some (''COMMENT'', ''//id//'')"
    and 4: "lex_body ''//id//;'' init_state =
      Inr \<lparr>tokens = [], pos = 6, cur_line = 1, cur_col = 7\<rparr>"
    by (simp_all add: init_state_def)
  from t w d(2) have "find_match token_specification_AL ''//id//;''
        (pos (init_state :: Token_AL lex_state)) = Some (''COMMENT'', ''//'' @ ''id'' @ ''//'') \<and>
      lex_body_AL ''//id//;'' init_state =
        Inr \<lparr>tokens = tokens (init_state :: Token_AL lex_state),
          pos = pos (init_state :: Token_AL lex_state) + (length ''id'' + 4),
          cur_line = cur_line (init_state :: Token_AL lex_state),
          cur_col = cur_col (init_state :: Token_AL lex_state) + (int (length ''id'') + 4)\<rparr>"
    by blast
  then have 3: "find_match token_specification_AL ''//id//;'' 0 = Some (''COMMENT'', ''//id//'')"
    and 5: "lex_body_AL ''//id//;'' init_state =
      Inr \<lparr>tokens = [], pos = 6, cur_line = 1, cur_col = 7\<rparr>"
    by (simp_all add: init_state_def)
  from t 2 have 1: "''//id//'' \<noteq> []" by blast
  from t w have "lex (''//'' @ ''id'' @ ''//'') = Some (Inr
        [\<lparr>token = ''EOF'', cadena = ''EOF'', lexeme = [], line = 1, col = 5 + int (length ''id'')\<rparr>]) \<and>
      lex_AL (''//'' @ ''id'' @ ''//'') = Some (Inr
        [\<lparr>type_AL = ''EOF'', lexeme_AL = [], line_AL = 1, col_AL = 5 + int (length ''id'')\<rparr>])"
    by blast
  then have 6: "lex ''//id//'' = Some (Inr
     [\<lparr>token = ''EOF'', cadena = ''EOF'', lexeme = [], line = 1, col = 7\<rparr>])"
    and 7: "lex_AL ''//id//'' = Some (Inr
     [\<lparr>type_AL = ''EOF'', lexeme_AL = [], line_AL = 1, col_AL = 7\<rparr>])"
    by simp_all
  from 1 2 3 4 5 6 7 show ?thesis by (intro conjI)
qed

end
